theory Spec2Isabelle
  imports Complex_Main
begin

section \<open>JavaScript numbers\<close>

text \<open>
  A JavaScript \<^verbatim>\<open>number\<close> is a binary64 value: a finite value, \<^verbatim>\<open>NaN\<close> or one of the two
  infinities. A finite value is represented by the rational it denotes; the values that occur
  are those that \<open>binary64\<close> below returns. Every comparison with \<^verbatim>\<open>NaN\<close> is false.
\<close>

datatype number = Num rat | NaN | PosInfinity | NegInfinity

fun num_le :: "number \<Rightarrow> number \<Rightarrow> bool" where
  "num_le NaN _ = False"
| "num_le _ NaN = False"
| "num_le (Num a) (Num b) = (a \<le> b)"
| "num_le NegInfinity _ = True"
| "num_le _ PosInfinity = True"
| "num_le PosInfinity _ = False"
| "num_le _ NegInfinity = False"

fun num_lt :: "number \<Rightarrow> number \<Rightarrow> bool" where
  "num_lt NaN _ = False"
| "num_lt _ NaN = False"
| "num_lt (Num a) (Num b) = (a < b)"
| "num_lt PosInfinity _ = False"
| "num_lt _ NegInfinity = False"
| "num_lt NegInfinity _ = True"
| "num_lt _ PosInfinity = True"

definition num_ge :: "number \<Rightarrow> number \<Rightarrow> bool" where
  "num_ge a b = num_le b a"

text \<open>\<^verbatim>\<open>Number.isFinite\<close> and \<^verbatim>\<open>Number.isInteger\<close>.\<close>

fun Number_isFinite :: "number \<Rightarrow> bool" where
  "Number_isFinite (Num _) = True"
| "Number_isFinite _ = False"

fun Number_isInteger :: "number \<Rightarrow> bool" where
  "Number_isInteger (Num r) = (of_int \<lfloor>r\<rfloor> = r)"
| "Number_isInteger _ = False"

text \<open>
  The binary exponent of a positive value \<open>a\<close>: the \<open>e\<close> with \<open>2 powi e \<le> a < 2 powi (e + 1)\<close>,
  found by halving or doubling, and not below -1022, where the subnormal values begin.
\<close>

function scale_down :: "rat \<Rightarrow> int \<Rightarrow> int" where
  "scale_down x e = (if 2 \<le> x then scale_down (x / 2) (e + 1) else e)"
  by pat_completeness auto
termination
proof (relation "measure (\<lambda>(x, e). nat \<lfloor>x\<rfloor>)")
  show "wf (measure (\<lambda>(x, e). nat \<lfloor>x\<rfloor>))" by simp
next
  fix x :: rat and e :: int
  assume big: "2 \<le> x"
  then have "\<lfloor>x / 2\<rfloor> < \<lfloor>x\<rfloor>" by linarith
  moreover from big have "0 < \<lfloor>x\<rfloor>" by linarith
  ultimately show "((x / 2, e + 1), (x, e)) \<in> measure (\<lambda>(x, e). nat \<lfloor>x\<rfloor>)"
    by simp
qed

function scale_up :: "rat \<Rightarrow> int \<Rightarrow> int" where
  "scale_up x e = (if x < 1 \<and> - 1022 < e then scale_up (2 * x) (e - 1) else e)"
  by pat_completeness auto
termination
  by (relation "measure (\<lambda>(x, e). nat (e + 1022))") simp_all

declare scale_down.simps [simp del] scale_up.simps [simp del]

definition exponent :: "rat \<Rightarrow> int" where
  "exponent a = (if 1 \<le> a then scale_down a 0 else scale_up a 0)"

text \<open>Rounding to the nearest integer, a tie to the even one.\<close>

definition round_half_even :: "rat \<Rightarrow> int" where
  "round_half_even q =
     (let f = \<lfloor>q\<rfloor>; d = q - of_int f
      in if d < 1 / 2 then f
         else if 1 / 2 < d then f + 1
         else if even f then f else f + 1)"

text \<open>
  \<open>binary64 x\<close> is the binary64 number nearest to \<open>x\<close>: \<open>x\<close> is rounded to a multiple of
  \<open>2 powi (e - 52)\<close>, which leaves 53 significant bits, and a magnitude that reaches
  \<open>2 powi 1024\<close> becomes an infinity. The two zeros are not told apart.
\<close>

definition binary64_limit :: rat where
  "binary64_limit = 2 powi 1024"

definition binary64 :: "rat \<Rightarrow> number" where
  "binary64 x =
     (if x = 0 then Num 0
      else
        (let a = \<bar>x\<bar>;
             u = 2 powi (exponent a - 52);
             r = of_int (round_half_even (a / u)) * u
         in if binary64_limit \<le> r then (if x < 0 then NegInfinity else PosInfinity)
            else Num (if x < 0 then - r else r)))"

text \<open>
  Arithmetic: the exact result of an operation on finite values is rounded by \<open>binary64\<close>.
  A literal of the source stands for the binary64 number nearest to it; 0.25 and 0.50 are such
  numbers themselves.
\<close>

fun num_times :: "number \<Rightarrow> number \<Rightarrow> number" where
  "num_times NaN _ = NaN"
| "num_times _ NaN = NaN"
| "num_times (Num a) (Num b) = binary64 (a * b)"
| "num_times PosInfinity (Num b) =
     (if b = 0 then NaN else if 0 < b then PosInfinity else NegInfinity)"
| "num_times NegInfinity (Num b) =
     (if b = 0 then NaN else if 0 < b then NegInfinity else PosInfinity)"
| "num_times (Num a) PosInfinity =
     (if a = 0 then NaN else if 0 < a then PosInfinity else NegInfinity)"
| "num_times (Num a) NegInfinity =
     (if a = 0 then NaN else if 0 < a then NegInfinity else PosInfinity)"
| "num_times PosInfinity PosInfinity = PosInfinity"
| "num_times NegInfinity NegInfinity = PosInfinity"
| "num_times PosInfinity NegInfinity = NegInfinity"
| "num_times NegInfinity PosInfinity = NegInfinity"

fun num_plus :: "number \<Rightarrow> number \<Rightarrow> number" where
  "num_plus NaN _ = NaN"
| "num_plus _ NaN = NaN"
| "num_plus (Num a) (Num b) = binary64 (a + b)"
| "num_plus PosInfinity NegInfinity = NaN"
| "num_plus NegInfinity PosInfinity = NaN"
| "num_plus PosInfinity _ = PosInfinity"
| "num_plus NegInfinity _ = NegInfinity"
| "num_plus _ PosInfinity = PosInfinity"
| "num_plus _ NegInfinity = NegInfinity"

fun num_uminus :: "number \<Rightarrow> number" where
  "num_uminus (Num a) = Num (- a)"
| "num_uminus NaN = NaN"
| "num_uminus PosInfinity = NegInfinity"
| "num_uminus NegInfinity = PosInfinity"

definition num_minus :: "number \<Rightarrow> number \<Rightarrow> number" where
  "num_minus a b = num_plus a (num_uminus b)"

text \<open>
  \<^verbatim>\<open>Number(x.toFixed(2))\<close>. For a finite \<open>x\<close> below \<open>10\<^sup>2\<^sup>1\<close> in magnitude,
  \<^verbatim>\<open>toFixed(2)\<close> prints the sign and the integer \<open>n\<close> for which \<open>n / 100 - |x|\<close> is as
  close to zero as possible, the larger \<open>n\<close> when there are two; \<open>toFixed2\<close> is the value of
  that decimal string, and \<^verbatim>\<open>Number\<close> reads it as the binary64 number nearest to it. At
  \<open>10\<^sup>2\<^sup>1\<close> and above, and for \<^verbatim>\<open>NaN\<close> and the infinities, the string is the number's own
  text, which \<^verbatim>\<open>Number\<close> reads back unchanged.
\<close>

definition toFixed2 :: "rat \<Rightarrow> rat" where
  "toFixed2 x =
     (if x < 0 then - (of_int \<lfloor>(- x) * 100 + 1 / 2\<rfloor> / 100)
      else of_int \<lfloor>x * 100 + 1 / 2\<rfloor> / 100)"

fun Number_toFixed2 :: "number \<Rightarrow> number" where
  "Number_toFixed2 (Num x) = (if \<bar>x\<bar> < 10 ^ 21 then binary64 (toFixed2 x) else Num x)"
| "Number_toFixed2 n = n"

section \<open>Dates (ECMAScript time values)\<close>

text \<open>
  A time value is a number of milliseconds since 1 January 1970 UTC. The day and calendar
  functions are those of the language standard; \<open>YearFromTime t\<close>, the largest year that
  starts at or before \<open>t\<close>, is found by a search upwards and then downwards from an estimate.
\<close>

definition msPerDay :: int where
  "msPerDay = 86400000"

definition Day :: "int \<Rightarrow> int" where
  "Day t = t div msPerDay"

definition TimeWithinDay :: "int \<Rightarrow> int" where
  "TimeWithinDay t = t mod msPerDay"

definition DaysInYear :: "int \<Rightarrow> int" where
  "DaysInYear y =
     (if y mod 4 \<noteq> 0 then 365
      else if y mod 100 \<noteq> 0 then 366
      else if y mod 400 \<noteq> 0 then 365
      else 366)"

definition DayFromYear :: "int \<Rightarrow> int" where
  "DayFromYear y =
     365 * (y - 1970) + (y - 1969) div 4 - (y - 1901) div 100 + (y - 1601) div 400"

definition TimeFromYear :: "int \<Rightarrow> int" where
  "TimeFromYear y = msPerDay * DayFromYear y"

lemma DayFromYear_less: "DayFromYear y < DayFromYear (y + 1)"
proof -
  have a: "(y - 1969) div 4 \<le> (y + 1 - 1969) div 4"
    by (rule zdiv_mono1) simp_all
  have b: "(y + 1 - 1901) div 100 \<le> (y - 1901) div 100 + 1"
    by linarith
  have c: "(y - 1601) div 400 \<le> (y + 1 - 1601) div 400"
    by (rule zdiv_mono1) simp_all
  have "365 * (y - 1970) + p - q + r < 365 * (y + 1 - 1970) + p' - q' + r'"
    if "p \<le> p'" "q' \<le> q + 1" "r \<le> r'" for p p' q q' r r' :: int
    using that by (simp add: algebra_simps)
  from this [OF a b c] show ?thesis
    unfolding DayFromYear_def .
qed

lemma TimeFromYear_less: "TimeFromYear y < TimeFromYear (y + 1)"
  using DayFromYear_less [of y] by (simp add: TimeFromYear_def msPerDay_def)

function year_up :: "int \<Rightarrow> int \<Rightarrow> int" where
  "year_up t y = (if TimeFromYear (y + 1) \<le> t then year_up t (y + 1) else y)"
  by pat_completeness auto
termination
proof (relation "measure (\<lambda>(t, y). nat (t + 1 - TimeFromYear (y + 1)))")
  show "wf (measure (\<lambda>(t, y). nat (t + 1 - TimeFromYear (y + 1))))" by simp
next
  fix t y :: int
  assume "TimeFromYear (y + 1) \<le> t"
  moreover have "TimeFromYear (y + 1) < TimeFromYear (y + 1 + 1)"
    by (rule TimeFromYear_less)
  ultimately show "((t, y + 1), (t, y)) \<in> measure (\<lambda>(t, y). nat (t + 1 - TimeFromYear (y + 1)))"
    by simp
qed

function year_down :: "int \<Rightarrow> int \<Rightarrow> int" where
  "year_down t y = (if t < TimeFromYear y then year_down t (y - 1) else y)"
  by pat_completeness auto
termination
proof (relation "measure (\<lambda>(t, y). nat (TimeFromYear y - t))")
  show "wf (measure (\<lambda>(t, y). nat (TimeFromYear y - t)))" by simp
next
  fix t y :: int
  assume "t < TimeFromYear y"
  moreover have "TimeFromYear (y - 1) < TimeFromYear y"
    using TimeFromYear_less [of "y - 1"] by simp
  ultimately show "((t, y - 1), (t, y)) \<in> measure (\<lambda>(t, y). nat (TimeFromYear y - t))"
    by simp
qed

declare year_up.simps [simp del] year_down.simps [simp del]

definition YearFromTime :: "int \<Rightarrow> int" where
  "YearFromTime t = year_down t (year_up t (1970 + (400 * Day t) div 146097))"

definition InLeapYear :: "int \<Rightarrow> int" where
  "InLeapYear t = (if DaysInYear (YearFromTime t) = 366 then 1 else 0)"

definition DayWithinYear :: "int \<Rightarrow> int" where
  "DayWithinYear t = Day t - DayFromYear (YearFromTime t)"

definition MonthFromTime :: "int \<Rightarrow> int" where
  "MonthFromTime t =
     (let d = DayWithinYear t; l = InLeapYear t
      in if d < 31 then 0
         else if d < 59 + l then 1
         else if d < 90 + l then 2
         else if d < 120 + l then 3
         else if d < 151 + l then 4
         else if d < 181 + l then 5
         else if d < 212 + l then 6
         else if d < 243 + l then 7
         else if d < 273 + l then 8
         else if d < 304 + l then 9
         else if d < 334 + l then 10
         else 11)"

definition DateFromTime :: "int \<Rightarrow> int" where
  "DateFromTime t =
     (let d = DayWithinYear t; l = InLeapYear t; m = MonthFromTime t
      in if m = 0 then d + 1
         else if m = 1 then d - 30
         else if m = 2 then d - 58 - l
         else if m = 3 then d - 89 - l
         else if m = 4 then d - 119 - l
         else if m = 5 then d - 150 - l
         else if m = 6 then d - 180 - l
         else if m = 7 then d - 211 - l
         else if m = 8 then d - 242 - l
         else if m = 9 then d - 272 - l
         else if m = 10 then d - 303 - l
         else d - 333 - l)"

definition MakeTime :: "int \<Rightarrow> int \<Rightarrow> int \<Rightarrow> int \<Rightarrow> int" where
  "MakeTime hour minute sec ms = hour * 3600000 + minute * 60000 + sec * 1000 + ms"

text \<open>
  \<^verbatim>\<open>MakeDay\<close> finds the day on which month \<open>mn\<close> of year \<open>ym\<close> begins and adds the date to it.
\<close>

definition DayOfMonthStart :: "int \<Rightarrow> int \<Rightarrow> int" where
  "DayOfMonthStart ym mn =
     (let l = (if DaysInYear ym = 366 then 1 else 0)
      in DayFromYear ym +
         (if mn = 0 then 0
          else if mn = 1 then 31
          else if mn = 2 then 59 + l
          else if mn = 3 then 90 + l
          else if mn = 4 then 120 + l
          else if mn = 5 then 151 + l
          else if mn = 6 then 181 + l
          else if mn = 7 then 212 + l
          else if mn = 8 then 243 + l
          else if mn = 9 then 273 + l
          else if mn = 10 then 304 + l
          else 334 + l))"

definition MakeDay :: "int \<Rightarrow> int \<Rightarrow> int \<Rightarrow> int" where
  "MakeDay year month date =
     (let ym = year + month div 12; mn = month mod 12
      in DayOfMonthStart ym mn + date - 1)"

definition MakeDate :: "int \<Rightarrow> int \<Rightarrow> int" where
  "MakeDate day time = day * msPerDay + time"

text \<open>
  A \<^verbatim>\<open>Date\<close> object holds a time value or \<^verbatim>\<open>NaN\<close> (an invalid date). \<^verbatim>\<open>TimeClip\<close> keeps a
  time value of at most 8.64e15 milliseconds in magnitude. The relational operators compare the
  time values, and are false when one of them is \<^verbatim>\<open>NaN\<close>.
\<close>

datatype Date = DateAt int | InvalidDate

definition TimeClip :: "int \<Rightarrow> Date" where
  "TimeClip time = (if \<bar>time\<bar> > 8640000000000000 then InvalidDate else DateAt time)"

definition new_Date :: "Date \<Rightarrow> Date" where
  "new_Date v = (case v of InvalidDate \<Rightarrow> InvalidDate | DateAt tv \<Rightarrow> TimeClip tv)"

definition Date_setUTCHours :: "Date \<Rightarrow> int \<Rightarrow> int \<Rightarrow> int \<Rightarrow> int \<Rightarrow> Date" where
  "Date_setUTCHours this hour minute sec ms =
     (case this of
        InvalidDate \<Rightarrow> InvalidDate
      | DateAt t \<Rightarrow> TimeClip (MakeDate (Day t) (MakeTime hour minute sec ms)))"

definition Date_getUTCDate :: "Date \<Rightarrow> int option" where
  "Date_getUTCDate this =
     (case this of InvalidDate \<Rightarrow> None | DateAt t \<Rightarrow> Some (DateFromTime t))"

definition Date_setUTCDate :: "Date \<Rightarrow> int option \<Rightarrow> Date" where
  "Date_setUTCDate this date =
     (case this of
        InvalidDate \<Rightarrow> InvalidDate
      | DateAt t \<Rightarrow>
          (case date of
             None \<Rightarrow> InvalidDate
           | Some dt \<Rightarrow>
               TimeClip (MakeDate (MakeDay (YearFromTime t) (MonthFromTime t) dt)
                           (TimeWithinDay t))))"

fun Date_le :: "Date \<Rightarrow> Date \<Rightarrow> bool" where
  "Date_le (DateAt a) (DateAt b) = (a \<le> b)"
| "Date_le _ _ = False"

fun Date_lt :: "Date \<Rightarrow> Date \<Rightarrow> bool" where
  "Date_lt (DateAt a) (DateAt b) = (a < b)"
| "Date_lt _ _ = False"

definition HourFromTime :: "int \<Rightarrow> int" where
  "HourFromTime t = (t div 3600000) mod 24"

definition MinFromTime :: "int \<Rightarrow> int" where
  "MinFromTime t = (t div 60000) mod 60"

definition SecFromTime :: "int \<Rightarrow> int" where
  "SecFromTime t = (t div 1000) mod 60"

definition msFromTime :: "int \<Rightarrow> int" where
  "msFromTime t = t mod 1000"

text \<open>
  \<^verbatim>\<open>toISOString\<close>: the text \<^verbatim>\<open>YYYY-MM-DDTHH:mm:ss.sssZ\<close>, with a sign and six digits for a year
  outside 0 to 9999. It throws a \<^verbatim>\<open>RangeError\<close> on an invalid date (\<open>None\<close>).
\<close>

fun digits :: "nat \<Rightarrow> nat \<Rightarrow> string" where
  "digits 0 n = []"
| "digits (Suc w) n = digits w (n div 10) @ [char_of (48 + n mod 10)]"

definition year_text :: "int \<Rightarrow> string" where
  "year_text y =
     (if 0 \<le> y \<and> y \<le> 9999 then digits 4 (nat y)
      else (if y < 0 then ''-'' else ''+'') @ digits 6 (nat \<bar>y\<bar>))"

definition Date_toISOString :: "Date \<Rightarrow> string option" where
  "Date_toISOString this =
     (case this of
        InvalidDate \<Rightarrow> None
      | DateAt t \<Rightarrow>
          Some (year_text (YearFromTime t) @ ''-'' @ digits 2 (nat (MonthFromTime t + 1))
                @ ''-'' @ digits 2 (nat (DateFromTime t))
                @ ''T'' @ digits 2 (nat (HourFromTime t))
                @ '':'' @ digits 2 (nat (MinFromTime t))
                @ '':'' @ digits 2 (nat (SecFromTime t))
                @ ''.'' @ digits 3 (nat (msFromTime t)) @ ''Z''))"

section \<open>Time utilities (shared/utils)\<close>

definition getMidnightUTC :: "Date \<Rightarrow> Date" where
  "getMidnightUTC date =
     (let midnight = new_Date date
      in Date_setUTCHours midnight 0 0 0 0)"

definition getNextMidnightUTC :: "Date \<Rightarrow> Date" where
  "getNextMidnightUTC date =
     (let nextMidnight = getMidnightUTC date
      in Date_setUTCDate nextMidnight
           (map_option (\<lambda>d. d + 1) (Date_getUTCDate nextMidnight)))"

section \<open>Validation utilities (shared/utils)\<close>

definition validateEntryFee :: "number \<Rightarrow> bool" where
  "validateEntryFee amount =
     (num_ge amount (Num 1) \<and> num_le amount (Num 100) \<and> Number_isFinite amount)"

definition validateSessionSize :: "number \<Rightarrow> bool" where
  "validateSessionSize playerCount =
     (num_ge playerCount (Num 1) \<and> num_le playerCount (Num 8) \<and> Number_isInteger playerCount)"

section \<open>Payment split (shared/utils)\<close>

record payment_split =
  developer :: number
  creator :: number
  winner :: number

definition calculatePaymentSplit :: "number \<Rightarrow> payment_split" where
  "calculatePaymentSplit totalAmount =
     (let developerAmount = num_times totalAmount (Num (25 / 100));
          creatorAmount = num_times totalAmount (Num (25 / 100));
          winnerAmount = num_times totalAmount (Num (50 / 100))
      in \<lparr>developer = Number_toFixed2 developerAmount,
          creator = Number_toFixed2 creatorAmount,
          winner = Number_toFixed2 winnerAmount\<rparr>)"

text \<open>The sum \<^verbatim>\<open>split.developer + split.creator + split.winner\<close> of the unit tests.\<close>

definition split_total :: "payment_split \<Rightarrow> number" where
  "split_total split = num_plus (num_plus (developer split) (creator split)) (winner split)"

section \<open>Request bodies and their validation (zod)\<close>

text \<open>
  A parsed JSON value. \<^verbatim>\<open>JSON.parse\<close> keeps the last of several members with one name, so
  a member is looked up from the end of the member list.
\<close>

datatype json =
    JNull
  | JBool bool
  | JNumber number
  | JString string
  | JArray "json list"
  | JObject "(string \<times> json) list"

fun member :: "json \<Rightarrow> string \<Rightarrow> json option" where
  "member (JObject kvs) k = map_of (rev kvs) k"
| "member _ k = None"

text \<open>
  \<^verbatim>\<open>z.number().min(lo).max(hi)\<close>: the value is a number other than \<^verbatim>\<open>NaN\<close>, at least \<open>lo\<close> and
  at most \<open>hi\<close> (both bounds inclusive). The result is the parsed number, \<open>None\<close> when the
  value is refused.
\<close>

fun z_number_min_max :: "rat \<Rightarrow> rat \<Rightarrow> json \<Rightarrow> number option" where
  "z_number_min_max lo hi (JNumber n) =
     (if n = NaN then None
      else if num_ge n (Num lo) \<and> num_le n (Num hi) then Some n else None)"
| "z_number_min_max lo hi _ = None"

text \<open>\<^verbatim>\<open>.optional()\<close>: a missing member is accepted as \<^verbatim>\<open>undefined\<close>.\<close>

fun z_optional :: "(json \<Rightarrow> 'a option) \<Rightarrow> json option \<Rightarrow> 'a option option" where
  "z_optional schema None = Some None"
| "z_optional schema (Some v) = map_option Some (schema v)"

fun z_required :: "(json \<Rightarrow> 'a option) \<Rightarrow> json option \<Rightarrow> 'a option" where
  "z_required schema None = None"
| "z_required schema (Some v) = schema v"

fun is_object :: "json \<Rightarrow> bool" where
  "is_object (JObject _) = True"
| "is_object _ = False"

section \<open>Responses and application errors (server/middleware/errorHandler)\<close>

text \<open>
  A response is its HTTP status and its JSON body. The free-text \<^verbatim>\<open>message\<close> member of a
  body is not modelled.
\<close>

record response =
  status :: nat
  body :: json

text \<open>The error classes: \<^verbatim>\<open>AppError\<close> and its subclass \<^verbatim>\<open>ValidationError\<close>.\<close>

record app_error =
  name :: string
  code :: string
  message :: string
  statusCode :: nat

definition AppError :: "string \<Rightarrow> string \<Rightarrow> nat \<Rightarrow> app_error" where
  "AppError c m sc = \<lparr>name = ''AppError'', code = c, message = m, statusCode = sc\<rparr>"

definition ValidationError :: "string \<Rightarrow> app_error" where
  "ValidationError m = (AppError ''VALIDATION_ERROR'' m 400)\<lparr>name := ''ValidationError''\<rparr>"

section \<open>Session routes (server/routes/session)\<close>

record create_session_data =
  entryFee :: number
  maxPlayers :: "number option"

text \<open>
  \<^verbatim>\<open>createSessionSchema.safeParse\<close>: \<open>None\<close> when \<^verbatim>\<open>success\<close> is false, the parsed data
  otherwise.
\<close>

definition createSessionSchema :: "json \<Rightarrow> create_session_data option" where
  "createSessionSchema b =
     (if \<not> is_object b then None
      else case z_required (z_number_min_max 1 100) (member b ''entryFee'') of
             None \<Rightarrow> None
           | Some fee \<Rightarrow>
               (case z_optional (z_number_min_max 1 8) (member b ''maxPlayers'') of
                  None \<Rightarrow> None
                | Some players \<Rightarrow> Some \<lparr>entryFee = fee, maxPlayers = players\<rparr>))"

fun json_of_create_session_data :: "create_session_data \<Rightarrow> json" where
  "json_of_create_session_data d =
     JObject ((''entryFee'', JNumber (entryFee d)) #
              (case maxPlayers d of None \<Rightarrow> [] | Some m \<Rightarrow> [(''maxPlayers'', JNumber m)]))"

text \<open>
  \<^verbatim>\<open>POST /create\<close>: throws \<^verbatim>\<open>ValidationError\<close> when the body does not parse, and answers
  with the parsed data otherwise.
\<close>

definition post_create :: "json \<Rightarrow> app_error + response" where
  "post_create reqBody =
     (case createSessionSchema reqBody of
        None \<Rightarrow> Inl (ValidationError ''Invalid session data'')
      | Some d \<Rightarrow>
          Inr \<lparr>status = 200,
               body = JObject [(''success'', JBool True),
                               (''data'', json_of_create_session_data d)]\<rparr>)"

text \<open>
  \<^verbatim>\<open>POST /:id/join\<close>: the handler reads the session id and answers; it reads and writes no
  stored state.
\<close>

definition post_join :: "string \<Rightarrow> response" where
  "post_join sessionId =
     \<lparr>status = 200,
      body = JObject [(''success'', JBool True), (''sessionId'', JString sessionId)]\<rparr>"

section \<open>Tables (prisma schema)\<close>

text \<open>
  The tables of the schema, with their enums. Decimal columns are rationals and dates are time
  values. Field names carry the table's prefix where two tables share a column name, and the
  status values of a transaction carry one because two of them are named like session states.
  The generated row identifiers of participants and transactions and the JSON columns are
  left out.
\<close>

record user_row =
  user_id :: string
  whopUserId :: string
  username :: string
  creditsBalance :: rat
  tokensRemaining :: int
  lastTokenReset :: int
  createdAt :: int
  updatedAt :: int

datatype SessionStatus = WAITING | STARTING | ACTIVE | COMPLETED | CANCELLED

record GameSession =
  gs_id :: string
  gs_creatorId :: string
  gs_entryFee :: rat
  gs_maxPlayers :: int
  gs_currentPlayers :: int
  gs_status :: SessionStatus
  gs_createdAt :: int
  gs_startedAt :: "int option"
  gs_endedAt :: "int option"

record GameParticipant =
  gp_sessionId :: string
  gp_userId :: string
  gp_score :: int
  gp_distanceTraveled :: rat
  gp_survivalTime :: "int option"
  gp_placement :: "int option"
  gp_joinedAt :: int
  gp_finishedAt :: "int option"

datatype TransactionType =
  ENTRY_FEE | PRIZE_PAYOUT | DEVELOPER_SPLIT | CREATOR_SPLIT | CREDIT_PURCHASE | REFUND

datatype TransactionStatus = TX_PENDING | TX_COMPLETED | TX_FAILED | TX_CANCELLED

record Transaction =
  tx_userId :: string
  tx_sessionId :: "string option"
  tx_amount :: rat
  tx_transactionType :: TransactionType
  tx_whopTransactionId :: "string option"
  tx_status :: TransactionStatus
  tx_createdAt :: int
  tx_processedAt :: "int option"

section \<open>Stored state (server/services/database, server/services/redis)\<close>

text \<open>
  The values kept under the key \<^verbatim>\<open>user:tokens:<id>\<close>: the token gate stores
  \<^verbatim>\<open>{tokens, lastReset}\<close>, the user routes store
  \<^verbatim>\<open>{tokensRemaining, lastTokenReset, maxTokens, nextReset}\<close>.
\<close>

datatype cache_value =
    GateTokenData int int
  | RouteTokenData int int int string

text \<open>
  The database holds the rows of the tables; when \<open>db_error\<close> is set, every query rejects
  with that Prisma error code. A cache entry carries the instant at which it expires; when
  \<open>cache_error\<close> is set the Redis client fails, which \<^verbatim>\<open>CacheService\<close> turns into a miss
  on \<^verbatim>\<open>get\<close> and into nothing stored on \<^verbatim>\<open>set\<close>.
\<close>

record store =
  users :: "string \<rightharpoonup> user_row"
  game_sessions :: "string \<rightharpoonup> GameSession"
  game_participants :: "GameParticipant list"
  transaction_rows :: "Transaction list"
  db_error :: "string option"
  cache :: "string \<rightharpoonup> cache_value \<times> int"
  cache_error :: bool


definition cache_set :: "store \<Rightarrow> int \<Rightarrow> string \<Rightarrow> cache_value \<Rightarrow> int \<Rightarrow> store" where
  "cache_set st now key v ttl =
     (if cache_error st then st
      else st\<lparr>cache := (cache st)(key \<mapsto> (v, now + 1000 * ttl))\<rparr>)"

definition CACHE_KEYS_USER_TOKENS :: "string \<Rightarrow> string" where
  "CACHE_KEYS_USER_TOKENS userId = ''user:tokens:'' @ userId"

definition CACHE_TTL_USER_TOKENS :: int where
  "CACHE_TTL_USER_TOKENS = 60"

definition DAILY_TOKEN_COUNT :: int where
  "DAILY_TOKEN_COUNT = 3"

section \<open>Error handler (server/middleware/errorHandler)\<close>

text \<open>
  What a route handler can throw: an application error, a known Prisma request error with its
  code, or another error with its message. \<^verbatim>\<open>asyncHandler\<close> passes it to \<^verbatim>\<open>errorHandler\<close>.
\<close>

datatype thrown =
    ThrownApp app_error
  | ThrownPrisma string
  | ThrownOther string

definition error_body :: "string \<Rightarrow> (string \<times> json) list \<Rightarrow> json" where
  "error_body c rest = JObject ((''error'', JString c) # rest)"

definition handlePrismaError :: "string \<Rightarrow> response" where
  "handlePrismaError c =
     (if c = ''P2002'' then \<lparr>status = 409, body = error_body ''VALIDATION_ERROR'' []\<rparr>
      else if c = ''P2014'' then \<lparr>status = 400, body = error_body ''VALIDATION_ERROR'' []\<rparr>
      else if c = ''P2003'' then \<lparr>status = 400, body = error_body ''VALIDATION_ERROR'' []\<rparr>
      else if c = ''P2025'' then \<lparr>status = 404, body = error_body ''VALIDATION_ERROR'' []\<rparr>
      else if c = ''P2021'' then \<lparr>status = 500, body = error_body ''INTERNAL_ERROR'' []\<rparr>
      else if c = ''P2022'' then \<lparr>status = 500, body = error_body ''INTERNAL_ERROR'' []\<rparr>
      else if c = ''P1008'' then \<lparr>status = 504, body = error_body ''INTERNAL_ERROR'' []\<rparr>
      else if c = ''P1001'' then \<lparr>status = 503, body = error_body ''INTERNAL_ERROR'' []\<rparr>
      else \<lparr>status = 500, body = error_body ''INTERNAL_ERROR'' []\<rparr>)"

definition errorHandler :: "thrown \<Rightarrow> response" where
  "errorHandler error =
     (case error of
        ThrownPrisma c \<Rightarrow> handlePrismaError c
      | ThrownApp e \<Rightarrow>
          (if code e \<noteq> [] \<and> statusCode e \<noteq> 0
           then \<lparr>status = statusCode e, body = error_body (code e) []\<rparr>
           else \<lparr>status = 500, body = error_body ''INTERNAL_ERROR'' []\<rparr>)
      | ThrownOther m \<Rightarrow>
          (if m = ''USER_NOT_FOUND'' then \<lparr>status = 404, body = error_body ''USER_NOT_FOUND'' []\<rparr>
           else if m = ''SESSION_NOT_FOUND''
             then \<lparr>status = 404, body = error_body ''SESSION_NOT_FOUND'' []\<rparr>
           else if m = ''INSUFFICIENT_CREDITS''
             then \<lparr>status = 403, body = error_body ''INSUFFICIENT_CREDITS'' []\<rparr>
           else if m = ''NO_TOKENS_REMAINING''
             then \<lparr>status = 403, body = error_body ''NO_TOKENS_REMAINING'' []\<rparr>
           else if m = ''SESSION_FULL'' then \<lparr>status = 409, body = error_body ''SESSION_FULL'' []\<rparr>
           else if m = ''ALREADY_IN_SESSION''
             then \<lparr>status = 409, body = error_body ''ALREADY_IN_SESSION'' []\<rparr>
           else if m = ''PAYMENT_FAILED''
             then \<lparr>status = 402, body = error_body ''PAYMENT_FAILED'' []\<rparr>
           else \<lparr>status = 500, body = error_body ''INTERNAL_ERROR'' []\<rparr>))"

section \<open>Token and credit gates (server/middleware/auth)\<close>

text \<open>The authenticated user that \<^verbatim>\<open>authMiddleware\<close> attaches to the request.\<close>

record auth_user =
  auth_id :: string
  auth_whopUserId :: string
  auth_username :: string

text \<open>A middleware either calls \<^verbatim>\<open>next()\<close> or sends a response.\<close>

datatype outcome = Next | Respond response

text \<open>
  \<^verbatim>\<open>getNextTokenReset\<close>: one day after the current instant, at 00:00 UTC, as ISO text.
  The request is served at the instant \<open>now\<close>, which every \<^verbatim>\<open>new Date()\<close> of it reads.
\<close>

definition getNextTokenReset :: "int \<Rightarrow> string option" where
  "getNextTokenReset now =
     (let tomorrow = TimeClip now;
          tomorrow = Date_setUTCDate tomorrow (map_option (\<lambda>d. d + 1) (Date_getUTCDate tomorrow));
          tomorrow = Date_setUTCHours tomorrow 0 0 0 0
      in Date_toISOString tomorrow)"




text \<open>
  \<^verbatim>\<open>requireCredits\<close> reads the balance from the database and writes nothing.
  \<^verbatim>\<open>parseFloat\<close> of the stored decimal is the binary64 number nearest to it.
\<close>

definition requireCredits :: "number \<Rightarrow> auth_user option \<Rightarrow> store \<Rightarrow> outcome" where
  "requireCredits requiredAmount req_user st =
     (case req_user of
        None \<Rightarrow> Respond \<lparr>status = 401, body = error_body ''UNAUTHORIZED'' []\<rparr>
      | Some u \<Rightarrow>
          (case db_error st of
             Some e \<Rightarrow> Respond \<lparr>status = 500, body = error_body ''INTERNAL_ERROR'' []\<rparr>
           | None \<Rightarrow>
               (case users st (auth_id u) of
                  None \<Rightarrow> Respond \<lparr>status = 401, body = error_body ''USER_NOT_FOUND'' []\<rparr>
                | Some user \<Rightarrow>
                    (let balance = binary64 (creditsBalance user)
                     in if num_lt balance requiredAmount
                        then Respond \<lparr>status = 403,
                               body = error_body ''INSUFFICIENT_CREDITS''
                                 [(''data'',
                                   JObject [(''required'', JNumber requiredAmount),
                                            (''available'', JNumber balance),
                                            (''deficit'',
                                             JNumber (num_minus requiredAmount balance))])]\<rparr>
                        else Next))))"

section \<open>User routes (server/routes/user)\<close>

text \<open>A stored date as it appears in a response body (\<^verbatim>\<open>null\<close> for an invalid date).\<close>

definition json_date :: "int \<Rightarrow> json" where
  "json_date t = (case Date_toISOString (TimeClip t) of None \<Rightarrow> JNull | Some s \<Rightarrow> JString s)"

text \<open>
  \<^verbatim>\<open>POST /tokens/reset\<close>. The result is what the handler throws or sends, and the state it
  leaves. The row is written before the response is built.
\<close>

definition post_tokens_reset :: "auth_user \<Rightarrow> int \<Rightarrow> store \<Rightarrow> (thrown + response) \<times> store" where
  "post_tokens_reset req_user now st =
     (let userId = auth_id req_user;
          lastMidnight = Date_setUTCHours (new_Date (TimeClip now)) 0 0 0 0
      in case db_error st of
           Some e \<Rightarrow> (Inl (ThrownPrisma e), st)
         | None \<Rightarrow>
             (case users st userId of
                None \<Rightarrow> (Inr \<lparr>status = 404, body = error_body ''USER_NOT_FOUND'' []\<rparr>, st)
              | Some user \<Rightarrow>
                  (let lastReset = TimeClip (lastTokenReset user)
                   in if Date_le lastMidnight lastReset
                      then (case getNextTokenReset now of
                              None \<Rightarrow> (Inl (ThrownOther ''Invalid time value''), st)
                            | Some nextReset \<Rightarrow>
                                (Inr \<lparr>status = 400,
                                   body = error_body ''TOKENS_ALREADY_RESET''
                                     [(''data'',
                                       JObject [(''tokensRemaining'',
                                                 JNumber (Num (of_int (tokensRemaining user)))),
                                                (''lastReset'', json_date (lastTokenReset user)),
                                                (''nextReset'', JString nextReset)])]\<rparr>, st))
                      else
                        (let updatedUser = user\<lparr>tokensRemaining := DAILY_TOKEN_COUNT,
                                                 lastTokenReset := now, updatedAt := now\<rparr>;
                             st1 = st\<lparr>users := (users st)(userId \<mapsto> updatedUser)\<rparr>;
                             cacheKey = CACHE_KEYS_USER_TOKENS userId
                         in case getNextTokenReset now of
                              None \<Rightarrow> (Inl (ThrownOther ''Invalid time value''), st1)
                            | Some nextReset \<Rightarrow>
                                (let tokenData =
                                       RouteTokenData (tokensRemaining updatedUser)
                                         (lastTokenReset updatedUser) DAILY_TOKEN_COUNT nextReset;
                                     st2 = cache_set st1 now cacheKey tokenData
                                             CACHE_TTL_USER_TOKENS
                                 in (Inr \<lparr>status = 200,
                                        body = JObject
                                          [(''success'', JBool True),
                                           (''data'',
                                            JObject
                                              [(''tokensRemaining'',
                                                JNumber (Num (of_int (tokensRemaining updatedUser)))),
                                               (''lastTokenReset'',
                                                json_date (lastTokenReset updatedUser)),
                                               (''maxTokens'',
                                                JNumber (Num (of_int DAILY_TOKEN_COUNT))),
                                               (''nextReset'', JString nextReset)])]\<rparr>,
                                     st2))))))"

text \<open>The response of the route: a thrown error goes through \<^verbatim>\<open>errorHandler\<close>.\<close>

definition sent :: "thrown + response \<Rightarrow> response" where
  "sent r = (case r of Inl e \<Rightarrow> errorHandler e | Inr res \<Rightarrow> res)"

section \<open>The mounted session routes (server/index)\<close>

text \<open>
  \<^verbatim>\<open>app.use('/api/sessions', authMiddleware, sessionRoutes)\<close>: for an authenticated user the
  request reaches the handler directly. No token or credit gate is mounted on the route.
\<close>

definition api_sessions_join ::
  "auth_user \<Rightarrow> string \<Rightarrow> int \<Rightarrow> store \<Rightarrow> response \<times> store" where
  "api_sessions_join req_user sessionId now st = (post_join sessionId, st)"

definition api_sessions_create :: "auth_user \<Rightarrow> json \<Rightarrow> response" where
  "api_sessions_create req_user reqBody =
     sent (case post_create reqBody of Inl e \<Rightarrow> Inl (ThrownApp e) | Inr res \<Rightarrow> Inr res)"

section \<open>Session state machine\<close>

text \<open>
  Modelled from the spec: the operations of the session state machine (\<open>join\<close>, \<open>start\<close>,
  the end of the countdown, \<open>recordInput\<close>, \<open>complete\<close>, \<open>cancel\<close>), which the repository
  declares only through the \<^verbatim>\<open>SessionStatus\<close> enum and the \<^verbatim>\<open>GameSession\<close> table. A room is a
  session with the users who joined it. Token and credit checks belong to other components.
\<close>

record room =
  session :: GameSession
  members :: "string list"

datatype session_error =
  SessionFull | SessionAlreadyStarted | AlreadyInSession | NotAllowedInThisState

datatype session_op =
    Join string
  | Start bool
  | CountdownOver int
  | RecordInput string
  | Complete int
  | Cancel int

definition MIN_PLAYERS :: int where
  "MIN_PLAYERS = 1"

definition set_status :: "SessionStatus \<Rightarrow> room \<Rightarrow> room" where
  "set_status s r = r\<lparr>session := (session r)\<lparr>gs_status := s\<rparr>\<rparr>"

text \<open>
  Modelled from the spec: the operations on a room, which the repository does not implement.
  \<open>join\<close> is open while the session is WAITING, not full and not yet joined by the user;
  \<open>start\<close> moves a WAITING session to STARTING once the minimum number of players is met or
  the start is forced, and leaves it WAITING otherwise; the end of the countdown moves STARTING
  to ACTIVE; an input is taken only while ACTIVE and from a participant; \<open>complete\<close> is
  allowed only from ACTIVE; \<open>cancel\<close> is allowed from WAITING, STARTING and ACTIVE.
\<close>

fun apply_op :: "session_op \<Rightarrow> room \<Rightarrow> session_error + room" where
  "apply_op (Join userId) r =
     (if gs_status (session r) \<noteq> WAITING then Inl SessionAlreadyStarted
      else if gs_currentPlayers (session r) = gs_maxPlayers (session r) then Inl SessionFull
      else if userId \<in> set (members r) then Inl AlreadyInSession
      else Inr (r\<lparr>session := (session r)\<lparr>gs_currentPlayers := gs_currentPlayers (session r) + 1\<rparr>,
                  members := members r @ [userId]\<rparr>))"
| "apply_op (Start forced) r =
     (if gs_status (session r) \<noteq> WAITING then Inl NotAllowedInThisState
      else if MIN_PLAYERS \<le> gs_currentPlayers (session r) \<or> forced
        then Inr (set_status STARTING r)
      else Inr r)"
| "apply_op (CountdownOver now) r =
     (if gs_status (session r) \<noteq> STARTING then Inl NotAllowedInThisState
      else Inr (r\<lparr>session := (session r)\<lparr>gs_status := ACTIVE, gs_startedAt := Some now\<rparr>\<rparr>))"
| "apply_op (RecordInput userId) r =
     (if gs_status (session r) \<noteq> ACTIVE \<or> userId \<notin> set (members r)
      then Inl NotAllowedInThisState
      else Inr r)"
| "apply_op (Complete now) r =
     (if gs_status (session r) \<noteq> ACTIVE then Inl NotAllowedInThisState
      else Inr (r\<lparr>session := (session r)\<lparr>gs_status := COMPLETED, gs_endedAt := Some now\<rparr>\<rparr>))"
| "apply_op (Cancel now) r =
     (if gs_status (session r) \<in> {WAITING, STARTING, ACTIVE}
      then Inr (r\<lparr>session := (session r)\<lparr>gs_status := CANCELLED, gs_endedAt := Some now\<rparr>\<rparr>)
      else Inl NotAllowedInThisState)"

text \<open>A run of operations; an operation that fails leaves the room as it is.\<close>

fun run :: "session_op list \<Rightarrow> room \<Rightarrow> room" where
  "run [] r = r"
| "run (op # ops) r = run ops (case apply_op op r of Inl e \<Rightarrow> r | Inr r' \<Rightarrow> r')"

text \<open>The legal transitions and the terminal states, as the specification lists them.\<close>

fun legal_transition :: "SessionStatus \<Rightarrow> SessionStatus \<Rightarrow> bool" where
  "legal_transition WAITING STARTING = True"
| "legal_transition STARTING ACTIVE = True"
| "legal_transition ACTIVE COMPLETED = True"
| "legal_transition WAITING CANCELLED = True"
| "legal_transition STARTING CANCELLED = True"
| "legal_transition ACTIVE CANCELLED = True"
| "legal_transition _ _ = False"

fun terminal :: "SessionStatus \<Rightarrow> bool" where
  "terminal COMPLETED = True"
| "terminal CANCELLED = True"
| "terminal _ = False"

definition status_of :: "room \<Rightarrow> SessionStatus" where
  "status_of r = gs_status (session r)"

section \<open>Settlement\<close>








section \<open>Notions used in the properties\<close>

text \<open>A time value that a \<^verbatim>\<open>Date\<close> can hold.\<close>

definition valid_time :: "int \<Rightarrow> bool" where
  "valid_time t = (\<bar>t\<bar> \<le> 8640000000000000)"

text \<open>
  A scenario: a user who was reset at 00:00 UTC on 3 November 2026, has used all three tokens
  by 23:59:59 UTC and holds a balance of 5.00; the token cache is empty.
\<close>

definition late_player :: user_row where
  "late_player = \<lparr>user_id = ''u1'', whopUserId = ''w1'', username = ''ann'',
     creditsBalance = 5, tokensRemaining = 0, lastTokenReset = 1793664000000,
     createdAt = 1793000000000, updatedAt = 1793750399000\<rparr>"

definition late_player_auth :: auth_user where
  "late_player_auth = \<lparr>auth_id = ''u1'', auth_whopUserId = ''w1'', auth_username = ''ann''\<rparr>"

definition late_store :: store where
  "late_store = \<lparr>users = [''u1'' \<mapsto> late_player], game_sessions = Map.empty,
     game_participants = [], transaction_rows = [], db_error = None,
     cache = Map.empty, cache_error = False\<rparr>"

text \<open>A lobby with its creator in it, and a ledger holding two entry fees of one session.\<close>

definition lobby :: room where
  "lobby = \<lparr>session = \<lparr>gs_id = ''s1'', gs_creatorId = ''u1'', gs_entryFee = 10,
       gs_maxPlayers = 2, gs_currentPlayers = 1, gs_status = WAITING,
       gs_createdAt = 1793750000000, gs_startedAt = None, gs_endedAt = None\<rparr>,
     members = [''u1'']\<rparr>"



text \<open>Membership of a number in the closed interval from \<open>lo\<close> to \<open>hi\<close>.\<close>

fun in_range :: "rat \<Rightarrow> rat \<Rightarrow> number \<Rightarrow> bool" where
  "in_range lo hi (Num r) = (lo \<le> r \<and> r \<le> hi)"
| "in_range lo hi _ = False"



text \<open>The same scenario with a waiting session that has an entry fee of 10.00.\<close>

definition open_session :: GameSession where
  "open_session = \<lparr>gs_id = ''s1'', gs_creatorId = ''u2'', gs_entryFee = 10,
     gs_maxPlayers = 2, gs_currentPlayers = 1, gs_status = WAITING,
     gs_createdAt = 1793750000000, gs_startedAt = None, gs_endedAt = None\<rparr>"

definition join_store :: store where
  "join_store = late_store\<lparr>game_sessions := [''s1'' \<mapsto> open_session]\<rparr>"

text \<open>A rational that is a binary64 value: rounding leaves it as it is.\<close>

definition is_binary64 :: "rat \<Rightarrow> bool" where
  "is_binary64 x = (binary64 x = Num x)"

section \<open>Properties\<close>

subsection \<open>Auxiliary facts\<close>

lemma pow2_pos: "0 < (2::rat) powi k"
  by simp

lemma pow2_less_exp:
  assumes "(2::rat) powi m < 2 powi n"
  shows "m < n"
proof (rule ccontr)
  assume "\<not> m < n"
  then have "(2::rat) powi n \<le> 2 powi m"
    by (intro power_int_increasing) simp_all
  with assms show False by simp
qed

lemma pow2_Suc: "(2::rat) powi (k + 1) = 2 * 2 powi k"
  by (simp add: power_int_add_1')

lemma pow2_half: "(2::rat) powi (k - 1) = 2 powi k / 2"
  using pow2_Suc [of "k - 1"] by simp

lemma round_half_even_error: "\<bar>of_int (round_half_even q) - q\<bar> \<le> 1 / 2"
proof -
  have "of_int \<lfloor>q\<rfloor> \<le> q" "q < of_int \<lfloor>q\<rfloor> + 1"
    by linarith+
  then show ?thesis
    by (auto simp add: round_half_even_def Let_def)
qed

lemma round_half_even_of_int: "round_half_even (of_int k) = k"
  by (simp add: round_half_even_def)

lemma scale_down_spec:
  assumes "1 \<le> x"
  shows "2 powi (scale_down x e - e) \<le> x \<and> x < 2 powi (scale_down x e - e + 1)"
  using assms
proof (induction x e rule: scale_down.induct)
  case (1 x e)
  show ?case
  proof (cases "2 \<le> x")
    case True
    then have r: "scale_down x e = scale_down (x / 2) (e + 1)"
      by (simp add: scale_down.simps [of x e])
    from True have "1 \<le> x / 2" by simp
    from "1.IH" [OF True this]
    have "2 powi (scale_down x e - e - 1) \<le> x / 2" "x / 2 < 2 powi (scale_down x e - e)"
      by (simp_all add: r algebra_simps)
    then show ?thesis
      using pow2_half [of "scale_down x e - e"] pow2_Suc [of "scale_down x e - e"]
      by simp
  next
    case False
    then have "scale_down x e = e"
      by (simp add: scale_down.simps [of x e])
    with False "1.prems" show ?thesis by simp
  qed
qed

lemma scale_up_spec:
  assumes "0 < x" and "x < 2"
  shows "x < 2 powi (scale_up x e - e + 1)
       \<and> (- 1022 < scale_up x e \<or> 1 \<le> x \<longrightarrow> 2 powi (scale_up x e - e) \<le> x)"
  using assms
proof (induction x e rule: scale_up.induct)
  case (1 x e)
  show ?case
  proof (cases "x < 1 \<and> - 1022 < e")
    case True
    then have r: "scale_up x e = scale_up (2 * x) (e - 1)"
      by (subst scale_up.simps) auto
    from True "1.prems" have "0 < 2 * x" "2 * x < 2" by simp_all
    from "1.IH" [OF True this]
    have up: "2 * x < 2 powi (scale_up x e - e + 1 + 1)"
      and lo: "- 1022 < scale_up x e \<Longrightarrow> 2 powi (scale_up x e - e + 1) \<le> 2 * x"
      by (simp_all add: r algebra_simps)
    from up have "x < 2 powi (scale_up x e - e + 1)"
      using pow2_Suc [of "scale_up x e - e + 1"] by simp
    moreover have "2 powi (scale_up x e - e) \<le> x" if "- 1022 < scale_up x e"
      using lo [OF that] pow2_Suc [of "scale_up x e - e"] by simp
    ultimately show ?thesis using True by auto
  next
    case False
    then have "scale_up x e = e"
      by (subst scale_up.simps) auto
    with False "1.prems" show ?thesis by auto
  qed
qed

lemma exponent_upper:
  assumes "0 < a"
  shows "a < 2 powi (exponent a + 1)"
proof (cases "1 \<le> a")
  case True
  with scale_down_spec [OF True, of 0] show ?thesis
    by (simp add: exponent_def)
next
  case False
  with assms have "a < 2" by simp
  from scale_up_spec [OF assms this, of 0] False show ?thesis
    by (simp add: exponent_def)
qed

lemma exponent_lower:
  assumes "0 < a" and "1 \<le> a \<or> - 1022 < exponent a"
  shows "2 powi (exponent a) \<le> a"
proof (cases "1 \<le> a")
  case True
  with scale_down_spec [OF True, of 0] show ?thesis
    by (simp add: exponent_def)
next
  case False
  with assms have "a < 2" by simp
  from scale_up_spec [OF assms(1) this, of 0] False assms(2) show ?thesis
    by (simp add: exponent_def)
qed

lemma exponent_unique:
  assumes "2 powi k \<le> a" and "a < 2 powi (k + 1)" and "- 1022 < k"
  shows "exponent a = k"
proof -
  have pos: "0 < a"
    using assms(1) pow2_pos [of k] by linarith
  have "2 powi k < (2::rat) powi (exponent a + 1)"
    using assms(1) exponent_upper [OF pos] by linarith
  then have 1: "k \<le> exponent a"
    using pow2_less_exp by fastforce
  with assms(3) have "- 1022 < exponent a" by simp
  then have "2 powi (exponent a) \<le> a"
    using exponent_lower [OF pos] by simp
  with assms(2) have "2 powi (exponent a) < (2::rat) powi (k + 1)" by linarith
  then have "exponent a \<le> k"
    using pow2_less_exp by fastforce
  with 1 show ?thesis by simp
qed

lemma exponent_ge_1:
  assumes "1 \<le> a"
  shows "0 \<le> exponent a" and "2 powi (exponent a) \<le> a" and "a < 2 powi (exponent a + 1)"
proof -
  from assms have pos: "0 < a" by simp
  show up: "a < 2 powi (exponent a + 1)" by (rule exponent_upper [OF pos])
  show "2 powi (exponent a) \<le> a" using exponent_lower [OF pos] assms by simp
  have "(2::rat) powi 0 < 2 powi (exponent a + 1)"
    using assms up by simp
  then show "0 \<le> exponent a"
    using pow2_less_exp by fastforce
qed

lemma binary64_pos:
  assumes "0 < x"
  shows "binary64 x =
           (if binary64_limit \<le> of_int (round_half_even (x / 2 powi (exponent x - 52)))
                                   * 2 powi (exponent x - 52)
            then PosInfinity
            else Num (of_int (round_half_even (x / 2 powi (exponent x - 52)))
                      * 2 powi (exponent x - 52)))"
proof -
  from assms have "x \<noteq> 0" "\<not> x < 0" "\<bar>x\<bar> = x" by simp_all
  then show ?thesis
    by (simp add: binary64_def Let_def)
qed

lemma below_limit:
  assumes "r < 2 powi K" and "K \<le> 1024"
  shows "\<not> binary64_limit \<le> r"
proof -
  have "(2::rat) powi K \<le> 2 powi 1024"
    using assms(2) by (intro power_int_increasing) simp_all
  with assms(1) show ?thesis
    unfolding binary64_limit_def by linarith
qed

text \<open>
  Rounding a value of the normal range that is below \<open>2 powi K\<close> moves it by at most
  \<open>2 powi (K - 54)\<close>.
\<close>

lemma binary64_error_from:
  assumes "2 powi L \<le> x" and "- 1022 < L" and "x < 2 powi K" and "K \<le> 1000"
  shows "\<exists>y. binary64 x = Num y \<and> \<bar>y - x\<bar> \<le> 2 powi (K - 54)"
proof -
  define e where "e = exponent x"
  define u :: rat where "u = 2 powi (e - 52)"
  define m :: rat where "m = of_int (round_half_even (x / u))"
  have upos: "0 < u" by (simp add: u_def)
  have xpos: "0 < x"
    using assms(1) pow2_pos [of L] by linarith
  have "2 powi L < (2::rat) powi (e + 1)"
    using assms(1) exponent_upper [OF xpos] unfolding e_def by linarith
  then have "L < e + 1" by (rule pow2_less_exp)
  with assms(2) have "- 1022 < e" by simp
  then have "2 powi e \<le> x"
    using exponent_lower [OF xpos] unfolding e_def by simp
  then have "2 powi e < (2::rat) powi K"
    using assms(3) by linarith
  then have eK: "e < K" by (rule pow2_less_exp)
  have "\<bar>m - x / u\<bar> \<le> 1 / 2"
    unfolding m_def by (rule round_half_even_error)
  then have "\<bar>m - x / u\<bar> * u \<le> 1 / 2 * u"
    using upos by (intro mult_right_mono) simp_all
  moreover have "m * u - x = (m - x / u) * u"
    using upos by (simp add: left_diff_distrib)
  then have "\<bar>m * u - x\<bar> = \<bar>m - x / u\<bar> * u"
    using upos by (simp only: abs_mult abs_of_pos)
  ultimately have err: "\<bar>m * u - x\<bar> \<le> u / 2" by simp
  have "u / 2 = 2 powi (e - 53)"
    using pow2_half [of "e - 52"] by (simp add: u_def)
  also have "\<dots> \<le> 2 powi (K - 54)"
    using eK by (intro power_int_increasing) simp_all
  finally have u2: "u / 2 \<le> 2 powi (K - 54)" .
  have "2 powi (K - 54) \<le> (2::rat) powi K"
    by (intro power_int_increasing) simp_all
  with err u2 assms(3) have "m * u < 2 * 2 powi K"
    by linarith
  then have "m * u < 2 powi (K + 1)" by (simp add: pow2_Suc)
  then have no: "\<not> binary64_limit \<le> m * u"
    using assms(4) by (intro below_limit [of _ "K + 1"]) simp_all
  from binary64_pos [OF xpos] no have "binary64 x = Num (m * u)"
    unfolding m_def u_def e_def by simp
  with err u2 show ?thesis
    by (intro exI [of _ "m * u"]) simp
qed

text \<open>
  A binary64 value of at least 1, multiplied by a power of two that is at most 1, is a
  binary64 value: such a product is exact.
\<close>

lemma binary64_scale:
  assumes "binary64 x = Num x" and "1 \<le> x" and "j \<le> 0" and "- 1000 \<le> j"
  shows "binary64 (x * 2 powi j) = Num (x * 2 powi j)"
proof -
  define e where "e = exponent x"
  define u :: rat where "u = 2 powi (e - 52)"
  define m :: rat where "m = of_int (round_half_even (x / u))"
  have upos: "0 < u" by (simp add: u_def)
  note ex = exponent_ge_1 [OF assms(2), folded e_def]
  from assms(2) have xpos: "0 < x" by simp
  from assms(1) binary64_pos [OF xpos]
  have "(if binary64_limit \<le> m * u then PosInfinity else Num (m * u)) = Num x"
    unfolding m_def u_def e_def by simp
  then have no: "\<not> binary64_limit \<le> m * u" and mx: "m * u = x"
    by (simp_all split: if_splits)
  from mx upos have q: "x / u = m"
    by (simp add: field_simps)
  define x' where "x' = x * 2 powi j"
  have jpos: "0 < (2::rat) powi j" by simp
  have j1: "(2::rat) powi j \<le> 1"
    using assms(3) power_int_increasing [of j 0 "2::rat"] by simp
  have "2 powi (e + j) \<le> x'"
    using ex(2) jpos by (simp add: x'_def power_int_add)
  moreover have "x' < 2 powi (e + j + 1)"
  proof -
    have "x * 2 powi j < 2 powi (e + 1) * 2 powi j"
      using ex(3) jpos by (intro mult_strict_right_mono)
    also have "\<dots> = 2 powi (e + j + 1)"
      by (simp add: power_int_add [symmetric] algebra_simps)
    finally show ?thesis by (simp add: x'_def)
  qed
  moreover have "- 1022 < e + j"
    using ex(1) assms(4) by simp
  ultimately have e': "exponent x' = e + j"
    by (rule exponent_unique)
  have x'pos: "0 < x'"
    using xpos jpos by (simp add: x'_def)
  define u' :: rat where "u' = 2 powi (exponent x' - 52)"
  have "u' = 2 powi ((e - 52) + j)"
    by (simp add: u'_def e' algebra_simps)
  also have "\<dots> = 2 powi (e - 52) * 2 powi j"
    by (rule power_int_add) simp
  finally have u': "u' = u * 2 powi j"
    by (simp add: u_def)
  have "x' / u' = m"
    using q jpos by (simp add: x'_def u')
  moreover have "m = of_int (round_half_even m)"
    unfolding m_def by (simp add: round_half_even_of_int)
  ultimately have "of_int (round_half_even (x' / u')) * u' = m * u'"
    by simp
  also have "\<dots> = x'"
    using mx by (simp add: u' x'_def)
  finally have r: "of_int (round_half_even (x' / u')) * u' = x'" .
  have "x' \<le> x"
    using j1 xpos by (simp add: x'_def mult_left_le)
  with no mx have "\<not> binary64_limit \<le> x'" by simp
  with binary64_pos [OF x'pos] r have "binary64 x' = Num x'"
    unfolding u'_def by simp
  then show ?thesis by (simp add: x'_def)
qed

text \<open>
  The binary64 value of a given number, from its exponent \<open>k\<close> and its rounded significand
  \<open>m\<close>.
\<close>

lemma binary64_value:
  assumes "2 powi k \<le> x" and "x < 2 powi (k + 1)" and "- 1022 < k" and "k < 1023"
    and "round_half_even (x * 2 powi (52 - k)) = m"
  shows "binary64 x = Num (of_int m * 2 powi (k - 52))"
proof -
  define u :: rat where "u = 2 powi (k - 52)"
  have upos: "0 < u" by (simp add: u_def)
  have xpos: "0 < x"
    using assms(1) pow2_pos [of k] by linarith
  have e: "exponent x = k"
    by (rule exponent_unique [OF assms(1-3)])
  have "u * 2 powi (52 - k) = 2 powi ((k - 52) + (52 - k))"
    unfolding u_def by (rule power_int_add [symmetric]) simp
  then have "u * 2 powi (52 - k) = 1" by simp
  then have "x / u = x * 2 powi (52 - k)"
    using upos by (simp add: field_simps)
  then have m: "round_half_even (x / u) = m"
    using assms(5) by simp
  have "\<bar>of_int m - x / u\<bar> \<le> 1 / 2"
    using round_half_even_error [of "x / u"] by (simp add: m)
  then have "\<bar>of_int m - x / u\<bar> * u \<le> 1 / 2 * u"
    using upos by (intro mult_right_mono) simp_all
  moreover have "of_int m * u - x = (of_int m - x / u) * u"
    using upos by (simp add: left_diff_distrib)
  then have "\<bar>of_int m * u - x\<bar> = \<bar>of_int m - x / u\<bar> * u"
    using upos by (simp only: abs_mult abs_of_pos)
  ultimately have err: "\<bar>of_int m * u - x\<bar> \<le> u / 2" by simp
  have "u \<le> 2 powi (k + 1)"
    unfolding u_def by (intro power_int_increasing) simp_all
  with err assms(2) have "of_int m * u < 2 * 2 powi (k + 1)"
    using upos by linarith
  then have "of_int m * u < 2 powi (k + 1 + 1)"
    by (simp only: pow2_Suc [of "k + 1"])
  then have lim: "\<not> binary64_limit \<le> of_int m * u"
    using assms(4) by (intro below_limit [of _ "k + 1 + 1"]) simp_all
  have "binary64 x = (if binary64_limit \<le> of_int m * u then PosInfinity else Num (of_int m * u))"
    using binary64_pos [OF xpos] unfolding e u_def [symmetric] m .
  with lim show ?thesis
    unfolding u_def by simp
qed

lemma floor_rat_numeral_divide [simp]:
  "\<lfloor>numeral a / numeral b :: rat\<rfloor> = numeral a div numeral b"
  using floor_divide_of_int_eq [of "numeral a" "numeral b", where ?'a = rat] by simp

lemma toFixed2_nonneg:
  assumes "0 \<le> x"
  shows "toFixed2 x = of_int \<lfloor>x * 100 + 1 / 2\<rfloor> / 100"
  using assms by (simp add: toFixed2_def)




lemma year_up_upper: "t < TimeFromYear (year_up t y + 1)"
proof (induction t y rule: year_up.induct)
  case (1 t y)
  show ?case
  proof (cases "TimeFromYear (y + 1) \<le> t")
    case True
    with 1 show ?thesis by (simp add: year_up.simps [of t y])
  next
    case False
    then show ?thesis by (simp add: year_up.simps [of t y])
  qed
qed

lemma year_down_bounds:
  assumes "t < TimeFromYear (y + 1)"
  shows "TimeFromYear (year_down t y) \<le> t \<and> t < TimeFromYear (year_down t y + 1)"
  using assms
proof (induction t y rule: year_down.induct)
  case (1 t y)
  show ?case
  proof (cases "t < TimeFromYear y")
    case True
    with 1 show ?thesis by (simp add: year_down.simps [of t y])
  next
    case False
    with 1 show ?thesis by (simp add: year_down.simps [of t y])
  qed
qed

lemma YearFromTime_bounds:
  "TimeFromYear (YearFromTime t) \<le> t \<and> t < TimeFromYear (YearFromTime t + 1)"
  unfolding YearFromTime_def by (rule year_down_bounds) (rule year_up_upper)

lemma MonthFromTime_range: "0 \<le> MonthFromTime t \<and> MonthFromTime t \<le> 11"
  by (simp add: MonthFromTime_def Let_def)

lemma MakeDay_next_date:
  "MakeDay (YearFromTime t) (MonthFromTime t) (DateFromTime t + 1) = Day t + 1"
proof -
  define d where "d = DayWithinYear t"
  define l where "l = InLeapYear t"
  have l: "(if DaysInYear (YearFromTime t) = 366 then 1 else 0) = l"
    by (simp add: l_def InLeapYear_def)
  have m: "MonthFromTime t div 12 = 0" "MonthFromTime t mod 12 = MonthFromTime t"
    using MonthFromTime_range [of t] by simp_all
  have "DayOfMonthStart (YearFromTime t) (MonthFromTime t) + DateFromTime t
          = DayFromYear (YearFromTime t) + d + 1"
    unfolding DayOfMonthStart_def DateFromTime_def MonthFromTime_def Let_def l
      d_def [symmetric] l_def [symmetric]
    by simp
  then show ?thesis
    by (simp add: MakeDay_def Let_def m d_def DayWithinYear_def)
qed

lemma div_succ:
  fixes a k :: int
  assumes "1 < k"
  shows "(a + 1) div k = (if (a + 1) mod k = 0 then a div k + 1 else a div k)"
proof -
  have m: "0 \<le> a mod k" "a mod k < k" using assms by simp_all
  have e: "(a + 1) div k = a div k + (a mod k + 1) div k"
    using assms by (simp add: div_add1_eq [of a 1 k])
  show ?thesis
  proof (cases "a mod k + 1 = k")
    case True
    then have "(a + 1) mod k = 0"
      by (metis mod_add_left_eq mod_self)
    moreover from True have "(a mod k + 1) div k = 1" using assms by simp
    ultimately show ?thesis using e by simp
  next
    case False
    with m have lt: "a mod k + 1 < k" by simp
    then have "(a mod k + 1) div k = 0" using m by simp
    moreover have "(a + 1) mod k = a mod k + 1"
      using lt m by (metis mod_add_left_eq mod_pos_pos_trivial add_nonneg_nonneg zero_le_one)
    ultimately show ?thesis using e m by simp
  qed
qed

lemma DayFromYear_step: "DayFromYear (y + 1) = DayFromYear y + DaysInYear y"
proof -
  have m4: "(y - 1968) mod 4 = y mod 4"
    using mod_mult_self1 [of y "- 492" 4] by simp
  have m100: "(y - 1900) mod 100 = y mod 100"
    using mod_mult_self1 [of y "- 19" 100] by simp
  have m400: "(y - 1600) mod 400 = y mod 400"
    using mod_mult_self1 [of y "- 4" 400] by simp
  have d4: "(y - 1968) div 4 = (if y mod 4 = 0 then (y - 1969) div 4 + 1 else (y - 1969) div 4)"
    using div_succ [of 4 "y - 1969"] by (simp add: m4)
  have d100: "(y - 1900) div 100
      = (if y mod 100 = 0 then (y - 1901) div 100 + 1 else (y - 1901) div 100)"
    using div_succ [of 100 "y - 1901"] by (simp add: m100)
  have d400: "(y - 1600) div 400
      = (if y mod 400 = 0 then (y - 1601) div 400 + 1 else (y - 1601) div 400)"
    using div_succ [of 400 "y - 1601"] by (simp add: m400)
  have c1: "y mod 4 = 0" if "y mod 100 = 0"
  proof -
    from that have "100 dvd y" by (simp add: dvd_eq_mod_eq_0)
    moreover have "(4::int) dvd 100" by simp
    ultimately have "4 dvd y" by (rule dvd_trans [rotated])
    then show ?thesis by (simp add: dvd_eq_mod_eq_0)
  qed
  have c2: "y mod 100 = 0" if "y mod 400 = 0"
  proof -
    from that have "400 dvd y" by (simp add: dvd_eq_mod_eq_0)
    moreover have "(100::int) dvd 400" by simp
    ultimately have "100 dvd y" by (rule dvd_trans [rotated])
    then show ?thesis by (simp add: dvd_eq_mod_eq_0)
  qed
  have e: "DayFromYear (y + 1) =
      365 * (y - 1969) + (y - 1968) div 4 - (y - 1900) div 100 + (y - 1600) div 400"
    by (simp add: DayFromYear_def)
  show ?thesis
    unfolding e d4 d100 d400
    using c1 c2 by (simp add: DayFromYear_def DaysInYear_def)
qed

lemma TimeFromYear_mono:
  assumes "y \<le> z"
  shows "TimeFromYear y \<le> TimeFromYear z"
  using assms
proof (induction z rule: int_ge_induct)
  case base
  show ?case by simp
next
  case (step i)
  with TimeFromYear_less [of i] show ?case by simp
qed

lemma YearFromTime_unique:
  assumes "TimeFromYear y \<le> t" and "t < TimeFromYear (y + 1)"
  shows "YearFromTime t = y"
proof (rule ccontr)
  let ?Y = "YearFromTime t"
  assume ne: "?Y \<noteq> y"
  note b = YearFromTime_bounds [of t]
  show False
  proof (cases "?Y < y")
    case True
    then have "TimeFromYear (?Y + 1) \<le> TimeFromYear y"
      by (intro TimeFromYear_mono) simp
    with b assms(1) show False by simp
  next
    case False
    with ne have "TimeFromYear (y + 1) \<le> TimeFromYear ?Y"
      by (intro TimeFromYear_mono) simp
    with b assms(2) show False by simp
  qed
qed

text \<open>
  The day that \<open>MakeDay\<close> takes for the first of a month is the day the standard asks for:
  the time value at its start lies in that year and that month and has the date 1.
\<close>

lemma DayOfMonthStart_meets_standard:
  assumes "0 \<le> mn" and "mn \<le> 11" and t_def: "t = DayOfMonthStart ym mn * msPerDay"
  shows "YearFromTime t = ym \<and> MonthFromTime t = mn \<and> DateFromTime t = 1"
proof -
  define l :: int where "l = (if DaysInYear ym = 366 then 1 else 0)"
  define off where "off = DayOfMonthStart ym mn - DayFromYear ym"
  have len: "DaysInYear ym = 365 + l"
    by (simp add: l_def DaysInYear_def)
  have l01: "l = 0 \<or> l = 1" by (simp add: l_def)
  have mn: "mn \<in> {0, 1, 2, 3, 4, 5, 6, 7, 8, 9, 10, 11}"
    using assms(1,2) by simp presburger
  have off: "off = (if mn = 0 then 0 else if mn = 1 then 31 else if mn = 2 then 59 + l
      else if mn = 3 then 90 + l else if mn = 4 then 120 + l else if mn = 5 then 151 + l
      else if mn = 6 then 181 + l else if mn = 7 then 212 + l else if mn = 8 then 243 + l
      else if mn = 9 then 273 + l else if mn = 10 then 304 + l else 334 + l)"
    by (simp add: off_def DayOfMonthStart_def Let_def l_def)
  have off_range: "0 \<le> off" "off < 365 + l"
    using l01 mn unfolding off by (elim insertE disjE emptyE; simp)+
  have day: "Day t = DayFromYear ym + off"
    by (simp add: t_def Day_def off_def msPerDay_def)
  have "TimeFromYear ym \<le> t"
    using off_range(1) by (simp add: TimeFromYear_def t_def off_def msPerDay_def)
  moreover have "t < TimeFromYear (ym + 1)"
    using off_range(2)
    by (simp add: TimeFromYear_def DayFromYear_step len t_def off_def msPerDay_def)
  ultimately have year: "YearFromTime t = ym"
    by (rule YearFromTime_unique)
  have dwy: "DayWithinYear t = off"
    by (simp add: DayWithinYear_def day year)
  have leap: "InLeapYear t = l"
    by (simp add: InLeapYear_def year l_def)
  have month: "MonthFromTime t = mn"
    using l01 mn unfolding MonthFromTime_def Let_def dwy leap off
    by (elim insertE disjE emptyE; simp)
  have date: "DateFromTime t = 1"
    using l01 mn unfolding DateFromTime_def Let_def month dwy leap off
    by (elim insertE disjE emptyE; simp)
  from year month date show ?thesis by simp
qed

lemma TimeClip_in_range:
  "\<bar>t\<bar> \<le> 8640000000000000 \<Longrightarrow> TimeClip t = DateAt t"
  by (simp add: TimeClip_def)

lemma Day_bounds:
  assumes "\<bar>t\<bar> \<le> 8640000000000000"
  shows "- 100000000 \<le> Day t" and "Day t \<le> 100000000"
    and "t < 8640000000000000 \<Longrightarrow> Day t \<le> 99999999"
proof -
  have "(- 8640000000000000) div msPerDay \<le> t div msPerDay"
    using assms by (intro zdiv_mono1) (simp_all add: msPerDay_def)
  then show "- 100000000 \<le> Day t"
    by (simp add: Day_def msPerDay_def)
  have "t div msPerDay \<le> 8640000000000000 div msPerDay"
    using assms by (intro zdiv_mono1) (simp_all add: msPerDay_def)
  then show "Day t \<le> 100000000"
    by (simp add: Day_def msPerDay_def)
  assume "t < 8640000000000000"
  then have "t div msPerDay \<le> 8639999999999999 div msPerDay"
    by (intro zdiv_mono1) (simp_all add: msPerDay_def)
  then show "Day t \<le> 99999999"
    by (simp add: Day_def msPerDay_def)
qed

lemma midnight_eq_Day: "t - t mod msPerDay = Day t * msPerDay"
  by (simp add: Day_def minus_mod_eq_div_mult)

lemma midnight_in_range:
  assumes "\<bar>t\<bar> \<le> 8640000000000000"
  shows "\<bar>t - t mod msPerDay\<bar> \<le> 8640000000000000"
proof -
  have "\<bar>Day t * msPerDay\<bar> \<le> 8640000000000000"
    using Day_bounds(1,2) [OF assms] by (simp add: msPerDay_def)
  then show ?thesis
    unfolding midnight_eq_Day .
qed

lemma getMidnightUTC_value:
  assumes "\<bar>t\<bar> \<le> 8640000000000000"
  shows "getMidnightUTC (DateAt t) = DateAt (t - t mod msPerDay)"
proof -
  have "MakeDate (Day t) (MakeTime 0 0 0 0) = t - t mod msPerDay"
    by (simp add: MakeDate_def MakeTime_def Day_def minus_mod_eq_div_mult)
  with assms midnight_in_range [OF assms] show ?thesis
    by (simp add: getMidnightUTC_def new_Date_def Date_setUTCHours_def TimeClip_in_range)
qed

lemma Date_setUTCDate_next:
  "Date_setUTCDate (DateAt t) (map_option (\<lambda>d. d + 1) (Date_getUTCDate (DateAt t)))
     = TimeClip (t + msPerDay)"
proof -
  have "MakeDate (Day t + 1) (TimeWithinDay t) = t + msPerDay"
    by (simp add: MakeDate_def Day_def TimeWithinDay_def algebra_simps)
  then show ?thesis
    by (simp add: Date_setUTCDate_def Date_getUTCDate_def MakeDay_next_date)
qed

lemma getNextMidnightUTC_value:
  assumes "\<bar>t\<bar> \<le> 8640000000000000"
  shows "getNextMidnightUTC (DateAt t) = TimeClip (t - t mod msPerDay + msPerDay)"
  by (simp add: getNextMidnightUTC_def getMidnightUTC_value [OF assms] Date_setUTCDate_next)

lemma TimeClip_valid: "valid_time t \<Longrightarrow> TimeClip t = DateAt t"
  by (simp add: valid_time_def TimeClip_def)

lemma lastMidnight_value:
  assumes "valid_time now"
  shows "Date_setUTCHours (new_Date (TimeClip now)) 0 0 0 0 = DateAt (Day now * msPerDay)"
proof -
  have "Date_setUTCHours (new_Date (DateAt now)) 0 0 0 0 = getMidnightUTC (DateAt now)"
    by (simp add: getMidnightUTC_def)
  with assms show ?thesis
    by (simp add: TimeClip_valid getMidnightUTC_value valid_time_def midnight_eq_Day)
qed

lemma Day_midnight_le: "Day t * msPerDay \<le> t"
  by (simp add: Day_def msPerDay_def)







lemma reset_not_due_noop:
  assumes "db_error st = None" and "users st (auth_id u) = Some row"
    and "Date_le (Date_setUTCHours (new_Date (TimeClip now)) 0 0 0 0) (TimeClip (lastTokenReset row))"
  shows "snd (post_tokens_reset u now st) = st"
  using assms by (simp add: post_tokens_reset_def Let_def split: option.splits)

lemma reset_due_users:
  assumes "db_error st = None" and "users st (auth_id u) = Some row"
    and "\<not> Date_le (Date_setUTCHours (new_Date (TimeClip now)) 0 0 0 0) (TimeClip (lastTokenReset row))"
  shows "users (snd (post_tokens_reset u now st)) =
           (users st)(auth_id u \<mapsto>
              row\<lparr>tokensRemaining := DAILY_TOKEN_COUNT, lastTokenReset := now, updatedAt := now\<rparr>)"
    and "db_error (snd (post_tokens_reset u now st)) = None"
  using assms
  by (simp_all add: post_tokens_reset_def Let_def cache_set_def split: option.splits)




lemma reset_unavailable_noop:
  "db_error st \<noteq> None \<Longrightarrow> snd (post_tokens_reset u now st) = st"
  "db_error st = None \<Longrightarrow> users st (auth_id u) = None \<Longrightarrow> snd (post_tokens_reset u now st) = st"
  by (auto simp add: post_tokens_reset_def Let_def split: option.splits)

lemma lastMidnight_same_day:
  assumes "valid_time now" and "valid_time now'" and "Day now' = Day now"
  shows "Date_setUTCHours (new_Date (TimeClip now')) 0 0 0 0
           = Date_setUTCHours (new_Date (TimeClip now)) 0 0 0 0"
  by (simp add: lastMidnight_value assms)

lemma apply_op_step:
  assumes "apply_op op r = Inr r'"
  shows "status_of r' = status_of r \<or> legal_transition (status_of r) (status_of r')"
proof (cases op)
  case (Join userId)
  with assms show ?thesis
    by (auto simp add: status_of_def split: if_splits)
next
  case (Start forced)
  with assms show ?thesis
    by (auto simp add: status_of_def set_status_def split: if_splits)
next
  case (CountdownOver now)
  with assms show ?thesis
    by (auto simp add: status_of_def split: if_splits)
next
  case (RecordInput userId)
  with assms show ?thesis
    by (auto simp add: status_of_def split: if_splits)
next
  case (Complete now)
  with assms show ?thesis
    by (auto simp add: status_of_def split: if_splits)
next
  case (Cancel now)
  with assms show ?thesis
    by (auto simp add: status_of_def split: if_splits)
qed

lemma legal_not_terminal: "legal_transition s s' \<Longrightarrow> \<not> terminal s"
  by (cases s; cases s') simp_all

lemma apply_op_terminal:
  assumes "apply_op op r = Inr r'" and "terminal (status_of r)"
  shows "status_of r' = status_of r"
  using apply_op_step [OF assms(1)] legal_not_terminal assms(2) by blast

lemma run_legal: "legal_transition\<^sup>*\<^sup>* (status_of r) (status_of (run ops r))"
proof (induction ops arbitrary: r)
  case Nil
  show ?case by simp
next
  case (Cons op ops)
  show ?case
  proof (cases "apply_op op r")
    case (Inl e)
    with Cons.IH [of r] show ?thesis by simp
  next
    case (Inr r')
    from apply_op_step [OF Inr]
    have "legal_transition\<^sup>*\<^sup>* (status_of r) (status_of r')" by auto
    also have "legal_transition\<^sup>*\<^sup>* (status_of r') (status_of (run ops r'))"
      by (rule Cons.IH)
    finally show ?thesis using Inr by simp
  qed
qed

lemma legal_transition_performed:
  assumes "legal_transition s s'" and "status_of r = s"
  shows "\<exists>op r'. apply_op op r = Inr r' \<and> status_of r' = s'"
proof (cases s')
  case STARTING
  with assms have "apply_op (Start True) r = Inr (set_status STARTING r)"
    by (cases s) (simp_all add: status_of_def)
  with STARTING show ?thesis
    by (intro exI [of _ "Start True"]) (simp add: status_of_def set_status_def)
next
  case ACTIVE
  with assms have "\<exists>r'. apply_op (CountdownOver 0) r = Inr r' \<and> status_of r' = ACTIVE"
    by (cases s) (simp_all add: status_of_def)
  with ACTIVE show ?thesis by blast
next
  case COMPLETED
  with assms have "\<exists>r'. apply_op (Complete 0) r = Inr r' \<and> status_of r' = COMPLETED"
    by (cases s) (simp_all add: status_of_def)
  with COMPLETED show ?thesis by blast
next
  case CANCELLED
  with assms have "\<exists>r'. apply_op (Cancel 0) r = Inr r' \<and> status_of r' = CANCELLED"
    by (cases s) (simp_all add: status_of_def)
  with CANCELLED show ?thesis by blast
next
  case WAITING
  with assms show ?thesis by (cases s) simp_all
qed




text \<open>The binary64 values of the examples.\<close>

lemma binary64_21_2: "binary64 (21 / 2) = Num (21 / 2)"
  by (rule binary64_value [where k = "3" and m = 5910974510923776, THEN trans])
    (simp_all add: round_half_even_def)

lemma binary64_263: "binary64 (263 / 100) = Num (2961116754996101 / 1125899906842624)"
  by (rule binary64_value [where k = "1" and m = 5922233509992202, THEN trans])
    (simp_all add: round_half_even_def)

lemma binary64_21_4: "binary64 (21 / 4) = Num (21 / 4)"
  by (rule binary64_value [where k = "2" and m = 5910974510923776, THEN trans])
    (simp_all add: round_half_even_def)

lemma binary64_524: "binary64 (131 / 25) = Num (2949857755927675 / 562949953421312)"
  by (rule binary64_value [where k = "2" and m = 5899715511855350, THEN trans])
    (simp_all add: round_half_even_def)

lemma binary64_1051: "binary64 (1051 / 100) = Num (5916604010457989 / 562949953421312)"
  by (rule binary64_value [where k = "3" and m = 5916604010457989, THEN trans])
    (simp_all add: round_half_even_def)

lemma binary64_263_twice: "binary64 (2961116754996101 / 562949953421312) = Num (2961116754996101 / 562949953421312)"
  by (rule binary64_value [where k = "2" and m = 5922233509992202, THEN trans])
    (simp_all add: round_half_even_def)

lemma binary64_263_263_525: "binary64 (5916604010457989 / 562949953421312) = Num (5916604010457989 / 562949953421312)"
  by (rule binary64_value [where k = "3" and m = 5916604010457989, THEN trans])
    (simp_all add: round_half_even_def)

lemma binary64_116: "binary64 (29 / 25) = Num (5224175567749775 / 4503599627370496)"
  by (rule binary64_value [where k = "0" and m = 5224175567749775, THEN trans])
    (simp_all add: round_half_even_def)

lemma binary64_114: "binary64 (57 / 50) = Num (5134103575202365 / 4503599627370496)"
  by (rule binary64_value [where k = "0" and m = 5134103575202365, THEN trans])
    (simp_all add: round_half_even_def)

lemma binary64_116_self: "binary64 (5224175567749775 / 4503599627370496) = Num (5224175567749775 / 4503599627370496)"
  by (rule binary64_value [where k = "0" and m = 5224175567749775, THEN trans])
    (simp_all add: round_half_even_def)

lemma binary64_114_self: "binary64 (5134103575202365 / 4503599627370496) = Num (5134103575202365 / 4503599627370496)"
  by (rule binary64_value [where k = "0" and m = 5134103575202365, THEN trans])
    (simp_all add: round_half_even_def)

text \<open>
  The amount times 0.25 and times 0.50 is exact, so each share is the amount's quarter or half
  rounded to cents and read back as a binary64 number.
\<close>

lemma calculatePaymentSplit_binary64:
  assumes "is_binary64 f" and "1 \<le> f" and "f \<le> 100"
  shows "calculatePaymentSplit (Num f) =
           \<lparr>developer = binary64 (of_int \<lfloor>25 * f + 1 / 2\<rfloor> / 100),
              creator = binary64 (of_int \<lfloor>25 * f + 1 / 2\<rfloor> / 100),
              winner = binary64 (of_int \<lfloor>50 * f + 1 / 2\<rfloor> / 100)\<rparr>"
proof -
  from assms(1) have rep: "binary64 f = Num f"
    by (simp add: is_binary64_def)
  have "binary64 (f * 2 powi (- 2)) = Num (f * 2 powi (- 2))"
    by (rule binary64_scale [OF rep assms(2)]) simp_all
  then have quarter: "binary64 (f / 4) = Num (f / 4)"
    by (simp add: power_int_minus)
  have "binary64 (f * 2 powi (- 1)) = Num (f * 2 powi (- 1))"
    by (rule binary64_scale [OF rep assms(2)]) simp_all
  then have half: "binary64 (f / 2) = Num (f / 2)"
    by (simp add: power_int_minus)
  have small: "\<bar>f / 4\<bar> < 10 ^ 21" "\<bar>f / 2\<bar> < 10 ^ 21"
    using assms(2,3) by simp_all
  have nn: "0 \<le> f / 4" "0 \<le> f / 2"
    using assms(2) by simp_all
  have shares: "toFixed2 (f / 4) = of_int \<lfloor>25 * f + 1 / 2\<rfloor> / 100"
    "toFixed2 (f / 2) = of_int \<lfloor>50 * f + 1 / 2\<rfloor> / 100"
    using nn by (simp_all add: toFixed2_nonneg mult.commute)
  show ?thesis
    using small by (simp add: calculatePaymentSplit_def quarter half shares)
qed

text \<open>The cents of the three shares, against the amount.\<close>

lemma share_cents:
  fixes f :: rat
  assumes "1 \<le> f" and "f \<le> 100"
  shows "25 \<le> \<lfloor>25 * f + 1 / 2\<rfloor>" and "\<lfloor>25 * f + 1 / 2\<rfloor> \<le> 2500"
    and "50 \<le> \<lfloor>50 * f + 1 / 2\<rfloor>" and "\<lfloor>50 * f + 1 / 2\<rfloor> \<le> 5000"
    and "\<bar>of_int (2 * \<lfloor>25 * f + 1 / 2\<rfloor> + \<lfloor>50 * f + 1 / 2\<rfloor>) - 100 * f\<bar> \<le> 3 / 2"
proof -
  show "25 \<le> \<lfloor>25 * f + 1 / 2\<rfloor>" "\<lfloor>25 * f + 1 / 2\<rfloor> \<le> 2500"
    "50 \<le> \<lfloor>50 * f + 1 / 2\<rfloor>" "\<lfloor>50 * f + 1 / 2\<rfloor> \<le> 5000"
    using assms by (simp_all add: le_floor_iff floor_le_iff)
  define n1 :: rat where "n1 = of_int \<lfloor>25 * f + 1 / 2\<rfloor>"
  define n2 :: rat where "n2 = of_int \<lfloor>50 * f + 1 / 2\<rfloor>"
  have "n1 \<le> 25 * f + 1 / 2" "25 * f + 1 / 2 < n1 + 1"
    "n2 \<le> 50 * f + 1 / 2" "50 * f + 1 / 2 < n2 + 1"
    unfolding n1_def n2_def by linarith+
  then have "\<bar>2 * n1 + n2 - 100 * f\<bar> \<le> 3 / 2"
    unfolding abs_le_iff by linarith
  then show "\<bar>of_int (2 * \<lfloor>25 * f + 1 / 2\<rfloor> + \<lfloor>50 * f + 1 / 2\<rfloor>) - 100 * f\<bar> \<le> 3 / 2"
    by (simp add: n1_def n2_def)
qed

text \<open>The sum of the three shares, as the unit tests add them.\<close>

lemma split_total_error:
  assumes "25 \<le> n1" and "n1 \<le> 2500" and "50 \<le> n2" and "n2 \<le> 5000"
  shows "\<exists>t. split_total \<lparr>developer = binary64 (of_int n1 / 100),
                           creator = binary64 (of_int n1 / 100),
                           winner = binary64 (of_int n2 / 100)\<rparr> = Num t
             \<and> \<bar>t - of_int (2 * n1 + n2) / 100\<bar> \<le> 1 / 1000000"
proof -
  define x1 :: rat where "x1 = of_int n1 / 100"
  define x2 :: rat where "x2 = of_int n2 / 100"
  have b1: "1 / 4 \<le> x1" "x1 \<le> 25" and b2: "1 / 2 \<le> x2" "x2 \<le> 50"
    using assms by (simp_all add: x1_def x2_def)
  have "\<exists>y. binary64 x1 = Num y \<and> \<bar>y - x1\<bar> \<le> 2 powi (5 - 54)"
    using b1 by (intro binary64_error_from [of "- 2"]) (simp_all add: power_int_minus)
  then obtain y1 where y1: "binary64 x1 = Num y1" "\<bar>y1 - x1\<bar> \<le> 1 / 2 ^ 49"
    by (auto simp add: power_int_minus)
  have "\<exists>y. binary64 x2 = Num y \<and> \<bar>y - x2\<bar> \<le> 2 powi (6 - 54)"
    using b2 by (intro binary64_error_from [of "- 2"]) (simp_all add: power_int_minus)
  then obtain y2 where y2: "binary64 x2 = Num y2" "\<bar>y2 - x2\<bar> \<le> 1 / 2 ^ 48"
    by (auto simp add: power_int_minus)
  have c1: "1 / 8 \<le> y1" "y1 \<le> 26" and c2: "1 / 4 \<le> y2" "y2 \<le> 51"
    using b1 b2 y1(2) y2(2) unfolding abs_le_iff by simp_all
  then have "1 / 4 \<le> y1 + y1" "y1 + y1 < 64" by simp_all
  then have "\<exists>y. binary64 (y1 + y1) = Num y \<and> \<bar>y - (y1 + y1)\<bar> \<le> 2 powi (6 - 54)"
    by (intro binary64_error_from [of "- 2"]) (simp_all add: power_int_minus)
  then obtain z where z: "binary64 (y1 + y1) = Num z" "\<bar>z - (y1 + y1)\<bar> \<le> 1 / 2 ^ 48"
    by (auto simp add: power_int_minus)
  have "1 / 8 \<le> z" "z \<le> 53"
    using c1 z(2) unfolding abs_le_iff by simp_all
  with c2 have "1 / 4 \<le> z + y2" "z + y2 < 128" by simp_all
  then have "\<exists>y. binary64 (z + y2) = Num y \<and> \<bar>y - (z + y2)\<bar> \<le> 2 powi (7 - 54)"
    by (intro binary64_error_from [of "- 2"]) (simp_all add: power_int_minus)
  then obtain t where t: "binary64 (z + y2) = Num t" "\<bar>t - (z + y2)\<bar> \<le> 1 / 2 ^ 47"
    by (auto simp add: power_int_minus)
  have "of_int (2 * n1 + n2) / 100 = x1 + x1 + x2"
    by (simp add: x1_def x2_def)
  moreover have "\<bar>t - (x1 + x1 + x2)\<bar> \<le> 1 / 1000000"
    using y1(2) y2(2) z(2) t(2) unfolding abs_le_iff by simp
  ultimately have "\<bar>t - of_int (2 * n1 + n2) / 100\<bar> \<le> 1 / 1000000"
    by (simp only:)
  moreover have "split_total \<lparr>developer = binary64 x1, creator = binary64 x1,
      winner = binary64 x2\<rparr> = Num t"
    using z(1) by (simp add: split_total_def y1(1) y2(1) t(1))
  ultimately show ?thesis
    unfolding x1_def x2_def by blast
qed

text \<open>The binary64 values of the credit examples.\<close>

lemma binary64_5: "binary64 5 = Num 5"
  by (rule binary64_value [where k = 2 and m = 5629499534213120, THEN trans])
    (simp_all add: round_half_even_def)

lemma binary64_501: "binary64 (501 / 100) = Num (2820379266640773 / 562949953421312)"
  by (rule binary64_value [where k = 2 and m = 5640758533281546, THEN trans])
    (simp_all add: round_half_even_def)

lemma binary64_501_less_5:
  "binary64 (5629499534213 / 562949953421312) = Num (5629499534213 / 562949953421312)"
  by (rule binary64_value [where k = "- 7" and m = 5764607523034112, THEN trans])
    (simp_all add: round_half_even_def)

lemma binary64_1_100: "binary64 (1 / 100) = Num (5764607523034235 / 576460752303423488)"
  by (rule binary64_value [where k = "- 7" and m = 5764607523034235, THEN trans])
    (simp_all add: round_half_even_def)

lemma binary64_11_10: "binary64 (11 / 10) = Num (2476979795053773 / 2251799813685248)"
  by (rule binary64_value [where k = 0 and m = 4953959590107546, THEN trans])
    (simp_all add: round_half_even_def)








subsection \<open>Validation\<close>

text \<open>
  C10. \<^verbatim>\<open>validateSessionSize\<close> accepts only integers: a number that is not the value of an
  integer is rejected, also when it lies between 1 and 8.
\<close>

theorem validateSessionSize_rejects_non_integer:
  assumes "\<forall>k::int. x \<noteq> Num (of_int k)"
  shows "validateSessionSize x = False"
proof (cases x)
  case (Num r)
  from assms have "x \<noteq> Num (of_int \<lfloor>r\<rfloor>)"
    by (rule spec)
  with Num have "of_int \<lfloor>r\<rfloor> \<noteq> r"
    by auto
  with Num show ?thesis
    by (simp add: validateSessionSize_def)
qed (simp_all add: validateSessionSize_def)

theorem validateSessionSize_rejects_non_integer_witness:
  "num_le (Num 1) (Num (9/2)) \<and> num_le (Num (9/2)) (Num 8)
   \<and> validateSessionSize (Num (9/2)) = False"
proof -
  have "\<forall>k::int. Num (9/2) \<noteq> Num (of_int k)"
  proof
    fix k :: int
    have "(of_int k :: rat) \<noteq> 9/2"
    proof
      assume "(of_int k :: rat) = 9/2"
      then have "(of_int (2 * k) :: rat) = of_int 9" by simp
      then have "2 * k = 9" by (simp only: of_int_eq_iff)
      then show False by presburger
    qed
    then show "Num (9/2) \<noteq> Num (of_int k)" by simp
  qed
  from validateSessionSize_rejects_non_integer [OF this] show ?thesis by simp
qed




text \<open>The two validators of shared/utils accept no value outside the same bounds.\<close>

lemma validators_within_bounds:
  "validateEntryFee fee \<longleftrightarrow> in_range 1 100 fee"
  "validateSessionSize players \<Longrightarrow> in_range 1 8 players"
  by (cases fee; cases players; simp add: validateEntryFee_def validateSessionSize_def num_ge_def)+

subsection \<open>Payment split\<close>

text \<open>
  C1, as stated, fails: for the valid amount 10.50 the parts are 2.63, 2.63 and 5.25 (the
  binary64 numbers nearest to them), and the test's sum of the three is the binary64 number
  nearest to 10.51, not 10.50. The winner's share is 5.25 and not the 5.24 that the other two
  shares leave of the amount.
\<close>

theorem calculatePaymentSplit_sum_counterexample:
  "validateEntryFee (Num (21 / 2))
   \<and> is_binary64 (21 / 2)
   \<and> calculatePaymentSplit (Num (21 / 2)) =
        \<lparr>developer = binary64 (263 / 100), creator = binary64 (263 / 100),
           winner = binary64 (525 / 100)\<rparr>
   \<and> split_total (calculatePaymentSplit (Num (21 / 2))) = binary64 (1051 / 100)
   \<and> split_total (calculatePaymentSplit (Num (21 / 2))) \<noteq> Num (21 / 2)
   \<and> winner (calculatePaymentSplit (Num (21 / 2))) \<noteq> binary64 (524 / 100)"
proof -
  have rep: "is_binary64 (21 / 2)"
    by (simp add: is_binary64_def binary64_21_2)
  have "calculatePaymentSplit (Num (21 / 2)) =
        \<lparr>developer = binary64 (263 / 100), creator = binary64 (263 / 100),
           winner = binary64 (525 / 100)\<rparr>"
    using calculatePaymentSplit_binary64 [OF rep] by simp
  then show ?thesis
    using rep
    by (simp add: split_total_def validateEntryFee_def num_ge_def binary64_263 binary64_21_4
        binary64_263_twice binary64_263_263_525 binary64_1051 binary64_524)
qed

text \<open>
  C1, amended. For every valid amount \<open>f\<close> in [1.00, 100.00] (a binary64 number), the developer
  and the creator each get 25% of \<open>f\<close> and the winner 50% of \<open>f\<close>, each share rounded on its
  own to the nearest cent (a half cent upwards) and stored as the binary64 number nearest to
  that cent amount. No share absorbs a remainder: the cents of the three shares differ from
  \<open>100 f\<close> by up to one and a half, and their binary64 sum differs from \<open>f\<close> by less than
  1.6 cents. When \<open>f\<close> is the binary64 number nearest to an amount of \<open>c\<close> cents, the shares
  sum to \<open>c\<close> cents up to one cent, and to \<open>c\<close> cents exactly when \<open>c\<close> is a multiple of four.
\<close>

theorem calculatePaymentSplit_rounds_each_share:
  assumes "is_binary64 f" and "1 \<le> f" and "f \<le> 100"
  shows "calculatePaymentSplit (Num f) =
           \<lparr>developer = binary64 (of_int \<lfloor>25 * f + 1 / 2\<rfloor> / 100),
              creator = binary64 (of_int \<lfloor>25 * f + 1 / 2\<rfloor> / 100),
              winner = binary64 (of_int \<lfloor>50 * f + 1 / 2\<rfloor> / 100)\<rparr>
       \<and> \<bar>of_int (2 * \<lfloor>25 * f + 1 / 2\<rfloor> + \<lfloor>50 * f + 1 / 2\<rfloor>) - 100 * f\<bar> \<le> 3 / 2
       \<and> (\<exists>t. split_total (calculatePaymentSplit (Num f)) = Num t \<and> \<bar>t - f\<bar> < 16 / 1000)
       \<and> (\<forall>c::int. 100 \<le> c \<and> c \<le> 10000 \<and> binary64 (of_int c / 100) = Num f \<longrightarrow>
             \<bar>2 * \<lfloor>25 * f + 1 / 2\<rfloor> + \<lfloor>50 * f + 1 / 2\<rfloor> - c\<bar> \<le> 1
             \<and> (4 dvd c \<longrightarrow> 2 * \<lfloor>25 * f + 1 / 2\<rfloor> + \<lfloor>50 * f + 1 / 2\<rfloor> = c))"
proof -
  define n1 where "n1 = \<lfloor>25 * f + 1 / 2\<rfloor>"
  define n2 where "n2 = \<lfloor>50 * f + 1 / 2\<rfloor>"
  note cents = share_cents [OF assms(2,3), folded n1_def n2_def]
  note split = calculatePaymentSplit_binary64 [OF assms, folded n1_def n2_def]
  from split_total_error [OF cents(1-4)] obtain t
    where t: "split_total (calculatePaymentSplit (Num f)) = Num t"
      "\<bar>t - of_int (2 * n1 + n2) / 100\<bar> \<le> 1 / 1000000"
    unfolding split by blast
  define s :: rat where "s = of_int (2 * n1 + n2)"
  have "\<bar>t - s / 100\<bar> \<le> 1 / 1000000" "\<bar>s - 100 * f\<bar> \<le> 3 / 2"
    unfolding s_def by (fact t(2) cents(5))+
  then have "\<bar>t - f\<bar> < 16 / 1000"
    unfolding abs_le_iff abs_less_iff by linarith
  with t(1) have total: "\<exists>t. split_total (calculatePaymentSplit (Num f)) = Num t
      \<and> \<bar>t - f\<bar> < 16 / 1000"
    by blast
  have near: "\<bar>2 * n1 + n2 - c\<bar> \<le> 1 \<and> (4 dvd c \<longrightarrow> 2 * n1 + n2 = c)"
    if c: "100 \<le> c" "c \<le> 10000" "binary64 (of_int c / 100) = Num f" for c :: int
  proof -
    define x :: rat where "x = of_int c / 100"
    have "1 \<le> x" "x < 2 powi 7"
      using c(1,2) by (simp_all add: x_def)
    from binary64_error_from [of 0 x 7] this c(3)
    have fx: "\<bar>f - x\<bar> \<le> 1 / 2 ^ 47"
      by (simp add: x_def power_int_minus)
    have fl: "of_int n1 \<le> 25 * f + 1 / 2" "25 * f + 1 / 2 < of_int n1 + 1"
      "of_int n2 \<le> 50 * f + 1 / 2" "50 * f + 1 / 2 < of_int n2 + 1"
      unfolding n1_def n2_def by linarith+
    have cx: "of_int c = 100 * x"
      by (simp add: x_def)
    have "\<bar>(of_int (2 * n1 + n2 - c) :: rat)\<bar> < 2"
      using cents(5) fx unfolding abs_le_iff abs_less_iff by (simp add: cx)
    then have "\<bar>2 * n1 + n2 - c\<bar> < 2"
      by (metis of_int_abs of_int_less_iff of_int_numeral)
    then have one: "\<bar>2 * n1 + n2 - c\<bar> \<le> 1" by simp
    have "2 * n1 + n2 = c" if "4 dvd c"
    proof -
      from that obtain k where k: "c = 4 * k" ..
      then have xk: "x = of_int k / 25"
        by (simp add: x_def)
      have "\<lfloor>25 * f + 1 / 2\<rfloor> = k"
        using fx unfolding abs_le_iff xk by (intro floor_unique) simp_all
      moreover have "\<lfloor>50 * f + 1 / 2\<rfloor> = 2 * k"
        using fx unfolding abs_le_iff xk by (intro floor_unique) simp_all
      ultimately show ?thesis
        by (simp add: n1_def n2_def k)
    qed
    with one show ?thesis by blast
  qed
  show ?thesis
    using split cents(5) total near unfolding n1_def n2_def by blast
qed

text \<open>
  The amended statement at 1.16 (116 cents, a multiple of four: the shares are 0.29, 0.29 and
  0.58) and at 1.14, where the shares are 0.28, 0.28 and 0.57 and sum to 1.13.
\<close>

theorem calculatePaymentSplit_rounds_each_share_witness:
  "is_binary64 (5224175567749775 / 4503599627370496)
   \<and> (1::rat) \<le> 5224175567749775 / 4503599627370496
   \<and> (5224175567749775 / 4503599627370496 :: rat) \<le> 100
   \<and> binary64 (of_int 116 / 100) = Num (5224175567749775 / 4503599627370496)
   \<and> calculatePaymentSplit (Num (5224175567749775 / 4503599627370496)) =
        \<lparr>developer = binary64 (29 / 100), creator = binary64 (29 / 100),
           winner = binary64 (58 / 100)\<rparr>
   \<and> is_binary64 (5134103575202365 / 4503599627370496)
   \<and> binary64 (of_int 114 / 100) = Num (5134103575202365 / 4503599627370496)
   \<and> calculatePaymentSplit (Num (5134103575202365 / 4503599627370496)) =
        \<lparr>developer = binary64 (28 / 100), creator = binary64 (28 / 100),
           winner = binary64 (57 / 100)\<rparr>"
proof -
  have r116: "is_binary64 (5224175567749775 / 4503599627370496)"
    and r114: "is_binary64 (5134103575202365 / 4503599627370496)"
    by (simp_all add: is_binary64_def binary64_116_self binary64_114_self)
  have f116: "\<lfloor>25 * (5224175567749775 / 4503599627370496 :: rat) + 1 / 2\<rfloor> = 29"
    "\<lfloor>50 * (5224175567749775 / 4503599627370496 :: rat) + 1 / 2\<rfloor> = 58"
    and f114: "\<lfloor>25 * (5134103575202365 / 4503599627370496 :: rat) + 1 / 2\<rfloor> = 28"
    "\<lfloor>50 * (5134103575202365 / 4503599627370496 :: rat) + 1 / 2\<rfloor> = 57"
    by simp_all
  have b: "(1::rat) \<le> 5224175567749775 / 4503599627370496"
    "(5224175567749775 / 4503599627370496 :: rat) \<le> 100"
    "(1::rat) \<le> 5134103575202365 / 4503599627370496"
    "(5134103575202365 / 4503599627370496 :: rat) \<le> 100"
    by simp_all
  note t116 = calculatePaymentSplit_rounds_each_share [OF r116 b(1,2), unfolded f116]
  note t114 = calculatePaymentSplit_rounds_each_share [OF r114 b(3,4), unfolded f114]
  note c116 = t116 [THEN conjunct2, THEN conjunct2, THEN conjunct2, THEN spec, of 116]
  note c114 = t114 [THEN conjunct2, THEN conjunct2, THEN conjunct2, THEN spec, of 114]
  have "binary64 (of_int 116 / 100) = Num (5224175567749775 / 4503599627370496)"
    "binary64 (of_int 114 / 100) = Num (5134103575202365 / 4503599627370496)"
    by (simp_all add: binary64_116 binary64_114)
  with c116 c114 t116 [THEN conjunct1] t114 [THEN conjunct1] r116 r114 b show ?thesis
    by simp
qed

subsection \<open>UTC midnights\<close>

text \<open>
  C9, as stated, fails on the last day a \<^verbatim>\<open>Date\<close> can hold: the next midnight of the greatest
  time value is beyond the range of time values, so \<^verbatim>\<open>getNextMidnightUTC\<close> returns an invalid
  date, which is not later than the instant.
\<close>

theorem getNextMidnightUTC_last_day_counterexample:
  "getMidnightUTC (DateAt 8640000000000000) = DateAt 8640000000000000
   \<and> getNextMidnightUTC (DateAt 8640000000000000) = InvalidDate
   \<and> \<not> Date_lt (DateAt 8640000000000000) (getNextMidnightUTC (DateAt 8640000000000000))"
proof -
  have r: "\<bar>8640000000000000 :: int\<bar> \<le> 8640000000000000" by simp
  have m: "(8640000000000000 :: int) mod msPerDay = 0"
    by (simp add: msPerDay_def)
  have "getMidnightUTC (DateAt 8640000000000000) = DateAt 8640000000000000"
    using getMidnightUTC_value [OF r] by (simp add: m)
  moreover have "getNextMidnightUTC (DateAt 8640000000000000) = InvalidDate"
    using getNextMidnightUTC_value [OF r] by (simp add: m TimeClip_def msPerDay_def)
  ultimately show ?thesis by simp
qed

text \<open>
  C9, amended. For every valid Date \<open>d\<close>: \<^verbatim>\<open>getMidnightUTC\<close> is idempotent and
  \<open>getMidnightUTC d \<le> d\<close>; when \<open>d\<close> is before the greatest time value,
  \<open>getNextMidnightUTC d\<close> is \<open>getMidnightUTC d\<close> plus 24 hours and
  \<open>getMidnightUTC d \<le> d < getNextMidnightUTC d\<close>; at the greatest time value
  \<open>getNextMidnightUTC d\<close> is an invalid date.
\<close>

theorem midnight_brackets_instant:
  assumes "\<bar>t\<bar> \<le> 8640000000000000"
  shows "getMidnightUTC (getMidnightUTC (DateAt t)) = getMidnightUTC (DateAt t)
       \<and> Date_le (getMidnightUTC (DateAt t)) (DateAt t)
       \<and> (t < 8640000000000000 \<longrightarrow>
            (\<exists>m. getMidnightUTC (DateAt t) = DateAt m
                 \<and> getNextMidnightUTC (DateAt t) = DateAt (m + 24 * 60 * 60 * 1000))
            \<and> Date_lt (DateAt t) (getNextMidnightUTC (DateAt t)))
       \<and> (t = 8640000000000000 \<longrightarrow> getNextMidnightUTC (DateAt t) = InvalidDate)"
proof -
  define m where "m = t - t mod msPerDay"
  have mid: "getMidnightUTC (DateAt t) = DateAt m"
    unfolding m_def by (rule getMidnightUTC_value [OF assms])
  have "m mod msPerDay = 0"
    by (simp add: m_def mod_diff_left_eq [symmetric])
  moreover have "\<bar>m\<bar> \<le> 8640000000000000"
    unfolding m_def by (rule midnight_in_range [OF assms])
  ultimately have idem: "getMidnightUTC (DateAt m) = DateAt m"
    using getMidnightUTC_value [of m] by simp
  have le: "m \<le> t"
    by (simp add: m_def msPerDay_def)
  have nxt: "getNextMidnightUTC (DateAt t) = TimeClip (m + msPerDay)"
    unfolding m_def by (rule getNextMidnightUTC_value [OF assms])
  have upper: "t < m + msPerDay"
    using pos_mod_bound [of msPerDay t] by (simp add: m_def msPerDay_def)
  have day: "msPerDay = 24 * 60 * 60 * 1000"
    by (simp add: msPerDay_def)
  have mD: "m = Day t * msPerDay"
    unfolding m_def by (rule midnight_eq_Day)
  have before: "getNextMidnightUTC (DateAt t) = DateAt (m + 24 * 60 * 60 * 1000)
      \<and> Date_lt (DateAt t) (getNextMidnightUTC (DateAt t))" if "t < 8640000000000000"
  proof -
    from Day_bounds(1) [OF assms] Day_bounds(3) [OF assms that]
    have "\<bar>m + msPerDay\<bar> \<le> 8640000000000000"
      by (simp add: mD msPerDay_def)
    then have "getNextMidnightUTC (DateAt t) = DateAt (m + msPerDay)"
      by (simp add: nxt TimeClip_in_range)
    with upper show ?thesis by (simp add: day)
  qed
  have last: "getNextMidnightUTC (DateAt t) = InvalidDate" if "t = 8640000000000000"
  proof -
    have "TimeClip (m + msPerDay) = InvalidDate"
      using that by (simp add: m_def TimeClip_def msPerDay_def)
    then show ?thesis
      unfolding nxt .
  qed
  have 1: "getMidnightUTC (getMidnightUTC (DateAt t)) = getMidnightUTC (DateAt t)"
    by (simp add: mid idem)
  have 2: "Date_le (getMidnightUTC (DateAt t)) (DateAt t)"
    by (simp add: mid le)
  from 1 2 before last mid show ?thesis by blast
qed

theorem midnight_brackets_instant_witness:
  "\<bar>1793750399000 :: int\<bar> \<le> 8640000000000000
   \<and> getMidnightUTC (DateAt 1793750399000) = DateAt 1793664000000
   \<and> getNextMidnightUTC (DateAt 1793750399000) = DateAt 1793750400000
   \<and> Date_lt (DateAt 1793750399000) (getNextMidnightUTC (DateAt 1793750399000))"
proof -
  have r: "\<bar>1793750399000 :: int\<bar> \<le> 8640000000000000" by simp
  have m: "getMidnightUTC (DateAt 1793750399000) = DateAt 1793664000000"
    by (simp add: getMidnightUTC_value [OF r] msPerDay_def)
  from midnight_brackets_instant [OF r] show ?thesis
    by (simp add: m)
qed

subsection \<open>Credit and token gates\<close>

text \<open>
  C7, as stated, fails. The join route is mounted without the credit gate: the claim's own
  example, a user with a balance of 5.00 joining a session with an entry fee of 10.00, is
  answered with 200. And the gate itself, for a balance of 5.00 against a requirement of
  5.01, reports the deficit 0.009999999999999787 (the binary64 difference), not 0.01.
\<close>

theorem requireCredits_deficit_counterexample:
  "users join_store (auth_id late_player_auth) = Some late_player
   \<and> creditsBalance late_player = 5
   \<and> map_option gs_entryFee (game_sessions join_store ''s1'') = Some 10
   \<and> api_sessions_join late_player_auth ''s1'' 1793750401000 join_store =
        (\<lparr>status = 200,
          body = JObject [(''success'', JBool True), (''sessionId'', JString ''s1'')]\<rparr>,
         join_store)
   \<and> binary64 (501 / 100) = Num (2820379266640773 / 562949953421312)
   \<and> requireCredits (Num (2820379266640773 / 562949953421312)) (Some late_player_auth)
        join_store =
        Respond \<lparr>status = 403,
          body = JObject
            [(''error'', JString ''INSUFFICIENT_CREDITS''),
             (''data'',
              JObject [(''required'', JNumber (Num (2820379266640773 / 562949953421312))),
                       (''available'', JNumber (Num 5)),
                       (''deficit'', JNumber (Num (5629499534213 / 562949953421312)))])]\<rparr>
   \<and> Num (5629499534213 / 562949953421312) \<noteq> binary64 (1 / 100)
   \<and> (5629499534213 / 562949953421312 :: rat) \<noteq> 501 / 100 - 5"
  by (simp add: api_sessions_join_def post_join_def join_store_def open_session_def
      late_store_def late_player_auth_def late_player_def requireCredits_def error_body_def
      num_minus_def binary64_5 binary64_501 binary64_501_less_5 binary64_1_100)

text \<open>
  C7, amended. The credit gate \<^verbatim>\<open>requireCredits\<close>, which no session route is mounted behind,
  compares binary64 numbers: with \<open>b\<close> the binary64 number nearest to the stored balance and
  \<open>r\<close> the required amount, it answers 403 with the error code \<^verbatim>\<open>INSUFFICIENT_CREDITS\<close> when
  \<open>b < r\<close>, reporting \<open>r\<close>, \<open>b\<close> and as the deficit the binary64 number nearest to \<open>r - b\<close>; when
  \<open>b\<close> is not below \<open>r\<close> it calls \<^verbatim>\<open>next()\<close>. A balance of 5.00 against a requirement of 10.00
  is reported with the deficit 5.
\<close>

theorem requireCredits_reports_binary64_deficit:
  assumes "db_error st = None"
    and "users st (auth_id u) = Some row"
    and "binary64 (creditsBalance row) = Num b"
  shows "(b < r \<longrightarrow>
            requireCredits (Num r) (Some u) st =
              Respond \<lparr>status = 403,
                body = JObject
                  [(''error'', JString ''INSUFFICIENT_CREDITS''),
                   (''data'', JObject [(''required'', JNumber (Num r)),
                                       (''available'', JNumber (Num b)),
                                       (''deficit'', JNumber (binary64 (r - b)))])]\<rparr>)
       \<and> (\<not> b < r \<longrightarrow> requireCredits (Num r) (Some u) st = Next)"
  using assms by (simp add: requireCredits_def error_body_def num_minus_def)

text \<open>
  The amended statement for the balance 5.00 against 10.00, and for the balance 1.10 against
  the number 1.1, which is the binary64 number nearest to the balance.
\<close>

theorem requireCredits_reports_binary64_deficit_witness:
  "db_error late_store = None
   \<and> users late_store (auth_id late_player_auth) = Some late_player
   \<and> binary64 (creditsBalance late_player) = Num 5
   \<and> requireCredits (Num 10) (Some late_player_auth) late_store =
        Respond \<lparr>status = 403,
          body = JObject
            [(''error'', JString ''INSUFFICIENT_CREDITS''),
             (''data'', JObject [(''required'', JNumber (Num 10)),
                                 (''available'', JNumber (Num 5)),
                                 (''deficit'', JNumber (Num 5))])]\<rparr>
   \<and> binary64 (11 / 10) = Num (2476979795053773 / 2251799813685248)
   \<and> (11 / 10 :: rat) < 2476979795053773 / 2251799813685248
   \<and> requireCredits (Num (2476979795053773 / 2251799813685248)) (Some late_player_auth)
        (late_store\<lparr>users := [''u1'' \<mapsto> late_player\<lparr>creditsBalance := 11 / 10\<rparr>]\<rparr>) = Next"
proof -
  let ?st = "late_store\<lparr>users := [''u1'' \<mapsto> late_player\<lparr>creditsBalance := 11 / 10\<rparr>]\<rparr>"
  have h: "db_error late_store = None"
    "users late_store (auth_id late_player_auth) = Some late_player"
    "binary64 (creditsBalance late_player) = Num 5"
    by (simp_all add: late_store_def late_player_auth_def late_player_def binary64_5)
  have h': "db_error ?st = None"
    "users ?st (auth_id late_player_auth) = Some (late_player\<lparr>creditsBalance := 11 / 10\<rparr>)"
    "binary64 (creditsBalance (late_player\<lparr>creditsBalance := 11 / 10\<rparr>))
       = Num (2476979795053773 / 2251799813685248)"
    by (simp_all add: late_store_def late_player_auth_def binary64_11_10)
  from requireCredits_reports_binary64_deficit [OF h, of 10]
    requireCredits_reports_binary64_deficit [OF h', of "2476979795053773 / 2251799813685248"]
    h binary64_11_10
  show ?thesis
    by (simp add: binary64_5)
qed




subsection \<open>Daily token reset\<close>




text \<open>
  C8. \<^verbatim>\<open>POST /api/user/tokens/reset\<close> is idempotent: when the tokens were already reset today
  (the stored reset date is at or after today's UTC midnight) the call leaves the state as it
  is; otherwise it sets the token count to 3; and a second call on the same UTC day leaves the
  state that the first call produced.
\<close>

theorem tokens_reset_idempotent:
  assumes "valid_time now" and "valid_time now'" and "Day now' = Day now"
  shows "(db_error st = None \<and> users st (auth_id u) = Some row
            \<and> Date_le (getMidnightUTC (DateAt now)) (TimeClip (lastTokenReset row))
          \<longrightarrow> snd (post_tokens_reset u now st) = st)
       \<and> (db_error st = None \<and> users st (auth_id u) = Some row
            \<and> \<not> Date_le (getMidnightUTC (DateAt now)) (TimeClip (lastTokenReset row))
          \<longrightarrow> map_option tokensRemaining (users (snd (post_tokens_reset u now st)) (auth_id u))
                = Some 3)
       \<and> snd (post_tokens_reset u now' (snd (post_tokens_reset u now st)))
           = snd (post_tokens_reset u now st)"
proof -
  let ?M = "Date_setUTCHours (new_Date (TimeClip now)) 0 0 0 0"
  let ?st1 = "snd (post_tokens_reset u now st)"
  have M: "getMidnightUTC (DateAt now) = ?M"
    by (simp add: getMidnightUTC_def TimeClip_valid [OF assms(1)])
  have M': "Date_setUTCHours (new_Date (TimeClip now')) 0 0 0 0 = ?M"
    by (rule lastMidnight_same_day [OF assms])
  have noop: "?st1 = st"
    if "db_error st = None" "users st (auth_id u) = Some row"
      "Date_le (getMidnightUTC (DateAt now)) (TimeClip (lastTokenReset row))" for row
    using that reset_not_due_noop [of st u row now] by (simp add: M)
  have resets: "map_option tokensRemaining (users ?st1 (auth_id u)) = Some 3"
    if "db_error st = None" "users st (auth_id u) = Some row"
      "\<not> Date_le (getMidnightUTC (DateAt now)) (TimeClip (lastTokenReset row))" for row
    using that reset_due_users(1) [of st u row now] by (simp add: M DAILY_TOKEN_COUNT_def)
  have again: "snd (post_tokens_reset u now' ?st1) = ?st1"
  proof (cases "db_error st")
    case (Some e)
    then show ?thesis by (simp add: reset_unavailable_noop(1))
  next
    case None
    show ?thesis
    proof (cases "users st (auth_id u)")
      case no_user: None
      with None show ?thesis by (simp add: reset_unavailable_noop(2))
    next
      case (Some row)
      show ?thesis
      proof (cases "Date_le ?M (TimeClip (lastTokenReset row))")
        case True
        with None Some have "?st1 = st"
          by (simp add: reset_not_due_noop)
        moreover from None Some True have "snd (post_tokens_reset u now' st) = st"
          by (intro reset_not_due_noop [of st u row now']) (simp_all add: M')
        ultimately show ?thesis by simp
      next
        case False
        let ?row' = "row\<lparr>tokensRemaining := DAILY_TOKEN_COUNT, lastTokenReset := now,
          updatedAt := now\<rparr>"
        from reset_due_users [OF None Some False]
        have 1: "db_error ?st1 = None" and 2: "users ?st1 (auth_id u) = Some ?row'"
          by simp_all
        have "Date_le ?M (TimeClip (lastTokenReset ?row'))"
          unfolding lastMidnight_value [OF assms(1)]
          by (simp add: TimeClip_valid [OF assms(1)] Day_midnight_le)
        then have 3: "Date_le (Date_setUTCHours (new_Date (TimeClip now')) 0 0 0 0)
            (TimeClip (lastTokenReset ?row'))"
          by (simp only: M')
        show ?thesis
          by (rule reset_not_due_noop [OF 1 2 3])
      qed
    qed
  qed
  from noop resets again show ?thesis by blast
qed

theorem tokens_reset_idempotent_witness:
  "valid_time 1793750401000 \<and> valid_time 1793750402000 \<and> Day 1793750402000 = Day 1793750401000
   \<and> map_option tokensRemaining
        (users (snd (post_tokens_reset late_player_auth 1793750401000 late_store))
           (auth_id late_player_auth)) = Some 3
   \<and> snd (post_tokens_reset late_player_auth 1793750402000
            (snd (post_tokens_reset late_player_auth 1793750401000 late_store)))
       = snd (post_tokens_reset late_player_auth 1793750401000 late_store)"
proof -
  have h: "valid_time 1793750401000" "valid_time 1793750402000"
    "Day 1793750402000 = Day 1793750401000"
    by (simp_all add: valid_time_def Day_def msPerDay_def)
  have s: "db_error late_store = None"
    "users late_store (auth_id late_player_auth) = Some late_player"
    by (simp_all add: late_store_def late_player_auth_def late_player_def)
  have "getMidnightUTC (DateAt 1793750401000) = DateAt 1793750400000"
    using getMidnightUTC_value [of 1793750401000] by (simp add: msPerDay_def)
  then have d: "\<not> Date_le (getMidnightUTC (DateAt 1793750401000))
      (TimeClip (lastTokenReset late_player))"
    by (simp add: late_player_def TimeClip_def)
  from tokens_reset_idempotent [OF h, of late_store late_player_auth late_player] s d h
  show ?thesis by simp
qed

subsection \<open>Session status\<close>

text \<open>
  C3. The only status transitions are WAITING to STARTING to ACTIVE to COMPLETED and, from each
  of these three non-terminal states, to CANCELLED: every operation that succeeds leaves the
  status as it is or performs one of these transitions, every run of operations follows them,
  and COMPLETED and CANCELLED are never left.
\<close>

theorem session_status_transitions:
  assumes "apply_op op r = Inr r'"
  shows "(status_of r' = status_of r \<or> legal_transition (status_of r) (status_of r'))
       \<and> (terminal (status_of r) \<longrightarrow> status_of r' = status_of r)
       \<and> legal_transition\<^sup>*\<^sup>* (status_of r) (status_of (run ops r))
       \<and> (terminal (status_of r) \<longrightarrow> status_of (run ops r) = status_of r)"
proof -
  have "status_of (run ops r) = status_of r" if "terminal (status_of r)"
    using run_legal [of r ops] that
    by (metis converse_rtranclpE legal_not_terminal)
  with apply_op_step [OF assms] apply_op_terminal [OF assms] run_legal [of r ops]
  show ?thesis by blast
qed

theorem session_status_transitions_witness:
  "apply_op (Start False) lobby = Inr (set_status STARTING lobby)
   \<and> status_of lobby = WAITING
   \<and> status_of (set_status STARTING lobby) = STARTING
   \<and> legal_transition (status_of lobby) (status_of (set_status STARTING lobby))
   \<and> status_of (run [Start False, CountdownOver 5, Complete 9, Cancel 10, Start True] lobby)
       = COMPLETED"
proof -
  have a: "apply_op (Start False) lobby = Inr (set_status STARTING lobby)"
    by (simp add: lobby_def MIN_PLAYERS_def)
  have s: "status_of lobby = WAITING" "status_of (set_status STARTING lobby) = STARTING"
    by (simp_all add: lobby_def status_of_def set_status_def)
  have r: "status_of (run [Start False, CountdownOver 5, Complete 9, Cancel 10, Start True] lobby)
       = COMPLETED"
    by (simp add: lobby_def MIN_PLAYERS_def status_of_def set_status_def)
  from session_status_transitions [OF a, of "[]"] a s r show ?thesis
    by simp
qed

subsection \<open>Settlement\<close>



end
